theory Spec2Isabelle
  imports Complex_Main "HOL-Library.Log_Nat"
begin

section \<open>Python floats: IEEE 754 binary64 with round-to-nearest, ties-to-even\<close>

text \<open>
  The estimator of \<^verbatim>\<open>src/app.py\<close> multiplies Python integers by the float literals
  \<^verbatim>\<open>0.8\<close>, \<^verbatim>\<open>1.0\<close> and \<^verbatim>\<open>1.3\<close>, so its results are binary64 values. A finite
  float is modelled by the rational number it denotes; every operation computes the exact
  rational result and rounds it to the nearest representable value, ties to the even
  significand, as the hardware does. The two zeros are identified (Python's \<^verbatim>\<open>==\<close>
  identifies them too, and no operation of the program tells them apart).

  \<open>ilog2 x\<close> is the binary exponent of a positive rational: the \<open>k\<close> with
  \<open>2^k \<le> x < 2^(k+1)\<close>. \<open>exponent64 x\<close> is the exponent of the unit in the last place
  of the binade of \<open>x\<close>: 53 significant bits, and never below \<open>-1074\<close>, the exponent of
  the smallest subnormal.
\<close>

definition ilog2 :: "rat \<Rightarrow> int" where
  "ilog2 x = (let (n, d) = quotient_of x; k = bitlen n - bitlen d
              in if 2 powi k \<le> x then k else k - 1)"

definition round_half_even :: "rat \<Rightarrow> int" where
  "round_half_even y =
     (let n = round y in if of_int n - y = 1 / 2 \<and> odd n then n - 1 else n)"

definition exponent64 :: "rat \<Rightarrow> int" where
  "exponent64 x = max (ilog2 \<bar>x\<bar> - 52) (- 1074)"

definition binary64 :: "rat \<Rightarrow> rat" where
  "binary64 x =
     (if x = 0 then 0
      else of_int (round_half_even (x / 2 powi exponent64 x)) * 2 powi exponent64 x)"

datatype pyfloat = Finite rat | PInf | NInf | NaN

text \<open>
  \<open>fl\<close> is the rounding of an exact result to a float: a rounded magnitude of
  \<open>2^1024\<close> or more overflows to an infinity. A float literal of the source is the
  rounding of the decimal it writes.
\<close>

definition fl :: "rat \<Rightarrow> pyfloat" where
  "fl x = (let r = binary64 x
           in if 2 ^ 1024 \<le> r then PInf else if r \<le> - (2 ^ 1024) then NInf else Finite r)"

definition signed_inf :: "rat \<Rightarrow> pyfloat" where
  "signed_inf a = (if a = 0 then NaN else if 0 < a then PInf else NInf)"

fun float_neg :: "pyfloat \<Rightarrow> pyfloat" where
  "float_neg (Finite a) = Finite (- a)"
| "float_neg PInf = NInf"
| "float_neg NInf = PInf"
| "float_neg NaN = NaN"

fun float_add :: "pyfloat \<Rightarrow> pyfloat \<Rightarrow> pyfloat" where
  "float_add (Finite a) (Finite b) = fl (a + b)"
| "float_add NaN y = NaN"
| "float_add x NaN = NaN"
| "float_add PInf NInf = NaN"
| "float_add NInf PInf = NaN"
| "float_add PInf y = PInf"
| "float_add x PInf = PInf"
| "float_add NInf y = NInf"
| "float_add x NInf = NInf"

definition float_sub :: "pyfloat \<Rightarrow> pyfloat \<Rightarrow> pyfloat" where
  "float_sub x y = float_add x (float_neg y)"

fun float_mul :: "pyfloat \<Rightarrow> pyfloat \<Rightarrow> pyfloat" where
  "float_mul (Finite a) (Finite b) = fl (a * b)"
| "float_mul NaN y = NaN"
| "float_mul x NaN = NaN"
| "float_mul (Finite a) PInf = signed_inf a"
| "float_mul (Finite a) NInf = signed_inf (- a)"
| "float_mul PInf (Finite b) = signed_inf b"
| "float_mul NInf (Finite b) = signed_inf (- b)"
| "float_mul PInf PInf = PInf"
| "float_mul NInf NInf = PInf"
| "float_mul PInf NInf = NInf"
| "float_mul NInf PInf = NInf"

text \<open>Python's \<^verbatim>\<open><=\<close> and \<^verbatim>\<open><\<close> on floats: every comparison with a NaN is false.\<close>

fun float_le :: "pyfloat \<Rightarrow> pyfloat \<Rightarrow> bool" where
  "float_le NaN y = False"
| "float_le x NaN = False"
| "float_le (Finite a) (Finite b) = (a \<le> b)"
| "float_le NInf y = True"
| "float_le x PInf = True"
| "float_le x y = False"

fun float_lt :: "pyfloat \<Rightarrow> pyfloat \<Rightarrow> bool" where
  "float_lt NaN y = False"
| "float_lt x NaN = False"
| "float_lt (Finite a) (Finite b) = (a < b)"
| "float_lt NInf NInf = False"
| "float_lt PInf PInf = False"
| "float_lt NInf y = True"
| "float_lt x PInf = True"
| "float_lt x y = False"

subsection \<open>Errors, and arithmetic that mixes \<^verbatim>\<open>int\<close> and \<^verbatim>\<open>float\<close>\<close>

text \<open>
  Python integers are unbounded (\<open>int\<close>). An \<^verbatim>\<open>int\<close> operand of a float operation is
  first converted to a float, correctly rounded, and the conversion raises
  \<^verbatim>\<open>OverflowError\<close> when the integer is too large. True division \<^verbatim>\<open>/\<close> of two integers
  returns the correctly rounded quotient, and raises when it is too large for a float or
  when the divisor is zero. Float operations themselves never raise: they overflow to an
  infinity.
\<close>

datatype py_error = KeyError | OverflowError | ZeroDivisionError | ValueError | TypeError
  | NameError | UnboundLocalError | IndexError

definition and_then :: "py_error + 'a \<Rightarrow> ('a \<Rightarrow> py_error + 'b) \<Rightarrow> py_error + 'b" where
  "and_then m f = (case m of Inl e \<Rightarrow> Inl e | Inr x \<Rightarrow> f x)"

definition float_of_int :: "int \<Rightarrow> py_error + pyfloat" where
  "float_of_int i = (case fl (of_int i) of Finite r \<Rightarrow> Inr (Finite r) | _ \<Rightarrow> Inl OverflowError)"

definition int_truediv :: "int \<Rightarrow> int \<Rightarrow> py_error + pyfloat" where
  "int_truediv a b =
     (if b = 0 then Inl ZeroDivisionError
      else case fl (of_int a / of_int b) of Finite r \<Rightarrow> Inr (Finite r) | _ \<Rightarrow> Inl OverflowError)"

definition int_mul_float :: "int \<Rightarrow> pyfloat \<Rightarrow> py_error + pyfloat" where
  "int_mul_float i x = and_then (float_of_int i) (\<lambda>y. Inr (float_mul y x))"

definition int_add_float :: "int \<Rightarrow> pyfloat \<Rightarrow> py_error + pyfloat" where
  "int_add_float i x = and_then (float_of_int i) (\<lambda>y. Inr (float_add y x))"

definition dict_get :: "('k \<times> 'v) list \<Rightarrow> 'k \<Rightarrow> py_error + 'v" where
  "dict_get d k = (case map_of d k of None \<Rightarrow> Inl KeyError | Some v \<Rightarrow> Inr v)"

section \<open>The ROI estimator\<close>

text \<open>
  \<^verbatim>\<open>calculate_costs_and_roi\<close> (lines 387 to 397 of \<^verbatim>\<open>src/app.py\<close>), statement by
  statement. Its caller passes the integers of three sliders and the string of a select
  box, so \<open>users\<close>, \<open>months\<close> and \<open>roi_percentage\<close> are integers and \<open>complexity\<close> is a
  string. The function validates nothing: the subscript \<^verbatim>\<open>complexity_factor[complexity]\<close>
  raises \<^verbatim>\<open>KeyError\<close> on a missing key, and the only other failures are the overflows
  of the conversions to float. The quotient \<^verbatim>\<open>roi_percentage/100\<close> is evaluated once for
  each of the two ROI lines.
\<close>

definition complexity_factor :: "(string \<times> pyfloat) list" where
  "complexity_factor = [(''Low'', fl (8 / 10)), (''Medium'', fl 1), (''High'', fl (13 / 10))]"

definition calculate_costs_and_roi ::
  "int \<Rightarrow> int \<Rightarrow> string \<Rightarrow> int \<Rightarrow> py_error + (pyfloat \<times> pyfloat \<times> pyfloat \<times> pyfloat)" where
  "calculate_costs_and_roi users months complexity roi_percentage =
     and_then (dict_get complexity_factor complexity) (\<lambda>factor.
     and_then (int_mul_float (users * 100 * months + 50000) factor) (\<lambda>ms_stack_cost.
     and_then (int_mul_float (users * 40 * months + 30000) factor) (\<lambda>power_apps_cost.
     and_then (int_truediv roi_percentage 100) (\<lambda>q1.
     and_then (int_add_float 1 q1) (\<lambda>g1.
     and_then (Inr (float_sub (float_mul ms_stack_cost g1) ms_stack_cost)) (\<lambda>ms_roi.
     and_then (int_truediv roi_percentage 100) (\<lambda>q2.
     and_then (int_add_float 1 q2) (\<lambda>g2.
     and_then (Inr (float_sub (float_mul power_apps_cost g2) power_apps_cost)) (\<lambda>pa_roi.
     Inr (ms_stack_cost, power_apps_cost, ms_roi, pa_roi))))))))))"

text \<open>
  The expression of lines 394 and 395 on its own,
  \<^verbatim>\<open>(cost * (1 + roi_percentage/100)) - cost\<close>, for a cost that is already a float.
\<close>

definition roi_alternate :: "pyfloat \<Rightarrow> int \<Rightarrow> py_error + pyfloat" where
  "roi_alternate cost roi_percentage =
     and_then (int_truediv roi_percentage 100) (\<lambda>q.
     and_then (int_add_float 1 q) (\<lambda>g.
     Inr (float_sub (float_mul cost g) cost)))"

text \<open>
  The specification's side of the estimator, in its own words: the table of complexity
  factors as decimals, and the simplified ROI formula \<^verbatim>\<open>roi = cost * (targetRoiPercent / 100)\<close>
  that the specification asks for in place of \<^verbatim>\<open>cost * (1 + p) - cost\<close>.
\<close>

definition complexityFactor :: "string \<Rightarrow> rat option" where
  "complexityFactor tier =
     (if tier = ''Low'' then Some (8 / 10)
      else if tier = ''Medium'' then Some 1
      else if tier = ''High'' then Some (13 / 10)
      else None)"

definition roi_simplified :: "pyfloat \<Rightarrow> int \<Rightarrow> py_error + pyfloat" where
  "roi_simplified cost roi_percentage =
     and_then (int_truediv roi_percentage 100) (\<lambda>q. Inr (float_mul cost q))"

section \<open>The estimator as a Python function\<close>

text \<open>
  The function of lines 387 to 397 once more, this time as the syntax tree of its
  \<^verbatim>\<open>def\<close> statement, run by an interpreter of the statements and expressions that it is
  written in. The interpreter has the two namespaces of a Python call: the globals of the
  module, which the call receives and returns, and the locals of the call. The values
  are those of the built-in types that the function can meet: \<^verbatim>\<open>None\<close>, integers, floats,
  strings, tuples and dictionaries (an association list in insertion order).
\<close>

datatype pyval = VNone | VInt int | VFloat pyfloat | VStr string | VTuple "pyval list"
  | VDict "(pyval \<times> pyval) list"

text \<open>
  The syntax, with the names of Python's \<^verbatim>\<open>ast\<close> module. A float literal is the constant
  of its binary64 value. \<open>exprs\<close> are the elements of a tuple display, \<open>items\<close> the keys and
  values of a dictionary display.
\<close>

datatype binop = Add | Sub | Mult | Div

datatype expr = Name string | Constant pyval | Dict items | Tuple exprs
  | Subscript expr expr | BinOp expr binop expr
and exprs = ENil | ECons expr exprs
and items = INil | ICons expr expr items

datatype stmt = Global "string list" | Assign string expr | Return expr

datatype pyfunc = FunctionDef string "string list" "stmt list"

text \<open>
  Dictionaries. A key must be hashable: a dictionary is not, a tuple is when its elements
  are. Keys are compared with \<^verbatim>\<open>==\<close>; an integer and a float are equal when they denote the
  same number, and NaN equals nothing (values have no identity here, so a NaN key is never
  found; the dictionary of the estimator has string keys). A display keeps the first
  position of a repeated key and its last value.
\<close>

fun float_eq :: "pyfloat \<Rightarrow> pyfloat \<Rightarrow> bool" where
  "float_eq (Finite x) (Finite y) = (x = y)"
| "float_eq PInf PInf = True"
| "float_eq NInf NInf = True"
| "float_eq x y = False"

fun hashable :: "pyval \<Rightarrow> bool"
  and hashable_list :: "pyval list \<Rightarrow> bool" where
  "hashable (VDict d) = False"
| "hashable (VTuple vs) = hashable_list vs"
| "hashable VNone = True"
| "hashable (VInt i) = True"
| "hashable (VFloat x) = True"
| "hashable (VStr s) = True"
| "hashable_list [] = True"
| "hashable_list (v # vs) = (hashable v \<and> hashable_list vs)"

fun key_eq :: "pyval \<Rightarrow> pyval \<Rightarrow> bool"
  and key_eq_list :: "pyval list \<Rightarrow> pyval list \<Rightarrow> bool" where
  "key_eq (VInt a) (VInt b) = (a = b)"
| "key_eq (VInt a) (VFloat y) = float_eq (Finite (of_int a)) y"
| "key_eq (VFloat x) (VInt b) = float_eq x (Finite (of_int b))"
| "key_eq (VFloat x) (VFloat y) = float_eq x y"
| "key_eq (VStr s) (VStr t) = (s = t)"
| "key_eq VNone VNone = True"
| "key_eq (VTuple xs) (VTuple ys) = key_eq_list xs ys"
| "key_eq a b = False"
| "key_eq_list [] [] = True"
| "key_eq_list (x # xs) (y # ys) = (key_eq x y \<and> key_eq_list xs ys)"
| "key_eq_list xs ys = False"


fun dict_set :: "(pyval \<times> pyval) list \<Rightarrow> pyval \<Rightarrow> pyval \<Rightarrow> (pyval \<times> pyval) list" where
  "dict_set [] k v = [(k, v)]"
| "dict_set ((k', v') # d) k v =
     (if key_eq k' k then (k', v) # d else (k', v') # dict_set d k v)"

fun build_dict :: "(pyval \<times> pyval) list \<Rightarrow> (pyval \<times> pyval) list \<Rightarrow> py_error + pyval" where
  "build_dict d [] = Inr (VDict d)"
| "build_dict d ((k, v) # kvs) =
     (if hashable k then build_dict (dict_set d k v) kvs else Inl TypeError)"

fun dict_lookup :: "(pyval \<times> pyval) list \<Rightarrow> pyval \<Rightarrow> py_error + pyval" where
  "dict_lookup [] k = Inl KeyError"
| "dict_lookup ((k', v) # d) k = (if key_eq k' k then Inr v else dict_lookup d k)"

text \<open>
  Subscription \<^verbatim>\<open>v[k]\<close>: a dictionary raises \<^verbatim>\<open>TypeError\<close> for an unhashable key and
  \<^verbatim>\<open>KeyError\<close> for a missing one; a tuple or a string takes an integer index, counted from
  the end when negative, and raises \<^verbatim>\<open>IndexError\<close> out of range.
\<close>

definition sequence_item :: "'a list \<Rightarrow> int \<Rightarrow> py_error + 'a" where
  "sequence_item xs i =
     (if 0 \<le> i \<and> i < int (length xs) then Inr (xs ! nat i)
      else if - int (length xs) \<le> i \<and> i < 0 then Inr (xs ! nat (int (length xs) + i))
      else Inl IndexError)"

fun subscript :: "pyval \<Rightarrow> pyval \<Rightarrow> py_error + pyval" where
  "subscript (VDict d) k = (if hashable k then dict_lookup d k else Inl TypeError)"
| "subscript (VTuple vs) (VInt i) = sequence_item vs i"
| "subscript (VStr s) (VInt i) = and_then (sequence_item s i) (\<lambda>c. Inr (VStr [c]))"
| "subscript v k = Inl TypeError"

text \<open>
  The binary operators \<^verbatim>\<open>+\<close>, \<^verbatim>\<open>-\<close>, \<^verbatim>\<open>*\<close> and \<^verbatim>\<open>/\<close>. Integers are exact, and \<^verbatim>\<open>/\<close> of two
  integers is the correctly rounded quotient. With one float operand the integer operand
  is converted first, which can raise \<^verbatim>\<open>OverflowError\<close>. Float division raises
  \<^verbatim>\<open>ZeroDivisionError\<close> for a zero divisor, whatever the dividend. \<^verbatim>\<open>+\<close> joins two strings
  or two tuples and \<^verbatim>\<open>*\<close> repeats a string or a tuple an integer number of times (not at
  all for a negative number). Every other combination raises \<^verbatim>\<open>TypeError\<close>.
\<close>

definition float_div :: "pyfloat \<Rightarrow> pyfloat \<Rightarrow> py_error + pyfloat" where
  "float_div x y =
     (case y of
        Finite b \<Rightarrow>
          if b = 0 then Inl ZeroDivisionError
          else (case x of
                  Finite a \<Rightarrow> Inr (fl (a / b))
                | PInf \<Rightarrow> Inr (if 0 < b then PInf else NInf)
                | NInf \<Rightarrow> Inr (if 0 < b then NInf else PInf)
                | NaN \<Rightarrow> Inr NaN)
      | NaN \<Rightarrow> Inr NaN
      | _ \<Rightarrow> (case x of Finite a \<Rightarrow> Inr (Finite 0) | _ \<Rightarrow> Inr NaN))"

fun float_binop :: "binop \<Rightarrow> pyfloat \<Rightarrow> pyfloat \<Rightarrow> py_error + pyfloat" where
  "float_binop Add x y = Inr (float_add x y)"
| "float_binop Sub x y = Inr (float_sub x y)"
| "float_binop Mult x y = Inr (float_mul x y)"
| "float_binop Div x y = float_div x y"

fun int_binop :: "binop \<Rightarrow> int \<Rightarrow> int \<Rightarrow> py_error + pyval" where
  "int_binop Add a b = Inr (VInt (a + b))"
| "int_binop Sub a b = Inr (VInt (a - b))"
| "int_binop Mult a b = Inr (VInt (a * b))"
| "int_binop Div a b = and_then (int_truediv a b) (\<lambda>q. Inr (VFloat q))"

definition repeat :: "int \<Rightarrow> 'a list \<Rightarrow> 'a list" where
  "repeat n xs = concat (replicate (nat n) xs)"

definition binop_values :: "binop \<Rightarrow> pyval \<Rightarrow> pyval \<Rightarrow> py_error + pyval" where
  "binop_values b v w =
     (case v of
        VInt i \<Rightarrow>
          (case w of
             VInt j \<Rightarrow> int_binop b i j
           | VFloat y \<Rightarrow>
               and_then (float_of_int i) (\<lambda>x. and_then (float_binop b x y) (\<lambda>r. Inr (VFloat r)))
           | VStr s \<Rightarrow> if b = Mult then Inr (VStr (repeat i s)) else Inl TypeError
           | VTuple s \<Rightarrow> if b = Mult then Inr (VTuple (repeat i s)) else Inl TypeError
           | _ \<Rightarrow> Inl TypeError)
      | VFloat x \<Rightarrow>
          (case w of
             VInt j \<Rightarrow>
               and_then (float_of_int j) (\<lambda>y. and_then (float_binop b x y) (\<lambda>r. Inr (VFloat r)))
           | VFloat y \<Rightarrow> and_then (float_binop b x y) (\<lambda>r. Inr (VFloat r))
           | _ \<Rightarrow> Inl TypeError)
      | VStr s \<Rightarrow>
          (case w of
             VStr t \<Rightarrow> if b = Add then Inr (VStr (s @ t)) else Inl TypeError
           | VInt n \<Rightarrow> if b = Mult then Inr (VStr (repeat n s)) else Inl TypeError
           | _ \<Rightarrow> Inl TypeError)
      | VTuple s \<Rightarrow>
          (case w of
             VTuple t \<Rightarrow> if b = Add then Inr (VTuple (s @ t)) else Inl TypeError
           | VInt n \<Rightarrow> if b = Mult then Inr (VTuple (repeat n s)) else Inl TypeError
           | _ \<Rightarrow> Inl TypeError)
      | _ \<Rightarrow> Inl TypeError)"

text \<open>
  Names. Inside a function a name is local when it is a parameter or the target of an
  assignment anywhere in the body, unless a \<^verbatim>\<open>global\<close> statement of the body declares it.
  Reading a local name that is not bound yet raises \<^verbatim>\<open>UnboundLocalError\<close>; every other
  name is read from the globals, and raises \<^verbatim>\<open>NameError\<close> when it is not bound there.
  Operands are evaluated from left to right, and the keys and values of a dictionary
  display in the order written.
\<close>

type_synonym namespace = "string \<Rightarrow> pyval option"

definition load_name :: "string list \<Rightarrow> namespace \<Rightarrow> namespace \<Rightarrow> string \<Rightarrow> py_error + pyval" where
  "load_name local_names globals locals x =
     (if x \<in> set local_names
      then (case locals x of None \<Rightarrow> Inl UnboundLocalError | Some v \<Rightarrow> Inr v)
      else (case globals x of None \<Rightarrow> Inl NameError | Some v \<Rightarrow> Inr v))"

fun eval :: "string list \<Rightarrow> namespace \<Rightarrow> namespace \<Rightarrow> expr \<Rightarrow> py_error + pyval"
  and eval_exprs :: "string list \<Rightarrow> namespace \<Rightarrow> namespace \<Rightarrow> exprs \<Rightarrow> py_error + pyval list"
  and eval_items ::
    "string list \<Rightarrow> namespace \<Rightarrow> namespace \<Rightarrow> items \<Rightarrow> py_error + (pyval \<times> pyval) list" where
  "eval ns g l (Name x) = load_name ns g l x"
| "eval ns g l (Constant v) = Inr v"
| "eval ns g l (Dict kvs) = and_then (eval_items ns g l kvs) (build_dict [])"
| "eval ns g l (Tuple es) = and_then (eval_exprs ns g l es) (\<lambda>vs. Inr (VTuple vs))"
| "eval ns g l (Subscript e k) =
     and_then (eval ns g l e) (\<lambda>v. and_then (eval ns g l k) (\<lambda>i. subscript v i))"
| "eval ns g l (BinOp e1 b e2) =
     and_then (eval ns g l e1) (\<lambda>x. and_then (eval ns g l e2) (\<lambda>y. binop_values b x y))"
| "eval_exprs ns g l ENil = Inr []"
| "eval_exprs ns g l (ECons e es) =
     and_then (eval ns g l e) (\<lambda>v. and_then (eval_exprs ns g l es) (\<lambda>vs. Inr (v # vs)))"
| "eval_items ns g l INil = Inr []"
| "eval_items ns g l (ICons k e kvs) =
     and_then (eval ns g l k) (\<lambda>kv. and_then (eval ns g l e) (\<lambda>v.
     and_then (eval_items ns g l kvs) (\<lambda>rest. Inr ((kv, v) # rest))))"

text \<open>
  Statements. An assignment binds a local name in the locals and a name declared global
  in the globals; \<^verbatim>\<open>return\<close> ends the call with its value, and a body that ends without one
  returns \<^verbatim>\<open>None\<close>. A call binds the parameters to the arguments by position and runs the
  body in fresh locals; it yields the globals as the body left them and the value returned
  or the exception raised.
\<close>

fun assigned :: "stmt \<Rightarrow> string list" where
  "assigned (Assign x e) = [x]"
| "assigned s = []"

fun declared_global :: "stmt \<Rightarrow> string list" where
  "declared_global (Global xs) = xs"
| "declared_global s = []"

definition local_names :: "string list \<Rightarrow> stmt list \<Rightarrow> string list" where
  "local_names params body =
     filter (\<lambda>x. x \<notin> set (concat (map declared_global body)))
       (params @ concat (map assigned body))"

fun exec :: "string list \<Rightarrow> namespace \<Rightarrow> namespace \<Rightarrow> stmt list \<Rightarrow> namespace \<times> (py_error + pyval)" where
  "exec ns g l [] = (g, Inr VNone)"
| "exec ns g l (Global xs # rest) = exec ns g l rest"
| "exec ns g l (Assign x e # rest) =
     (case eval ns g l e of
        Inl err \<Rightarrow> (g, Inl err)
      | Inr v \<Rightarrow> if x \<in> set ns then exec ns g (l(x \<mapsto> v)) rest else exec ns (g(x \<mapsto> v)) l rest)"
| "exec ns g l (Return e # rest) = (g, eval ns g l e)"

definition call :: "pyfunc \<Rightarrow> namespace \<Rightarrow> pyval list \<Rightarrow> namespace \<times> (py_error + pyval)" where
  "call f g args =
     (case f of FunctionDef name params body \<Rightarrow>
        if length args = length params
        then exec (local_names params body) g (map_of (zip params args)) body
        else (g, Inl TypeError))"

text \<open>The \<^verbatim>\<open>def\<close> statement of lines 387 to 397.\<close>

definition calculate_costs_and_roi_ast :: pyfunc where
  "calculate_costs_and_roi_ast =
     FunctionDef ''calculate_costs_and_roi'' [''users'', ''months'', ''complexity'', ''roi_percentage'']
       [Assign ''complexity_factor''
          (Dict (ICons (Constant (VStr ''Low'')) (Constant (VFloat (fl (8 / 10))))
                (ICons (Constant (VStr ''Medium'')) (Constant (VFloat (fl 1)))
                (ICons (Constant (VStr ''High'')) (Constant (VFloat (fl (13 / 10)))) INil)))),
        Assign ''factor'' (Subscript (Name ''complexity_factor'') (Name ''complexity'')),
        Assign ''ms_stack_cost''
          (BinOp (BinOp (BinOp (BinOp (Name ''users'') Mult (Constant (VInt 100))) Mult (Name ''months''))
                    Add (Constant (VInt 50000)))
             Mult (Name ''factor'')),
        Assign ''power_apps_cost''
          (BinOp (BinOp (BinOp (BinOp (Name ''users'') Mult (Constant (VInt 40))) Mult (Name ''months''))
                    Add (Constant (VInt 30000)))
             Mult (Name ''factor'')),
        Assign ''ms_roi''
          (BinOp (BinOp (Name ''ms_stack_cost'') Mult
                    (BinOp (Constant (VInt 1)) Add
                       (BinOp (Name ''roi_percentage'') Div (Constant (VInt 100)))))
             Sub (Name ''ms_stack_cost'')),
        Assign ''pa_roi''
          (BinOp (BinOp (Name ''power_apps_cost'') Mult
                    (BinOp (Constant (VInt 1)) Add
                       (BinOp (Name ''roi_percentage'') Div (Constant (VInt 100)))))
             Sub (Name ''power_apps_cost'')),
        Return (Tuple (ECons (Name ''ms_stack_cost'') (ECons (Name ''power_apps_cost'')
                 (ECons (Name ''ms_roi'') (ECons (Name ''pa_roi'') ENil)))))]"

text \<open>
  The names that a statement reads, and the check that a function reads and assigns local
  names only. The four floats that the estimator returns, as the Python tuple.
\<close>

fun names :: "expr \<Rightarrow> string list"
  and names_exprs :: "exprs \<Rightarrow> string list"
  and names_items :: "items \<Rightarrow> string list" where
  "names (Name x) = [x]"
| "names (Constant v) = []"
| "names (Dict kvs) = names_items kvs"
| "names (Tuple es) = names_exprs es"
| "names (Subscript e k) = names e @ names k"
| "names (BinOp e1 b e2) = names e1 @ names e2"
| "names_exprs ENil = []"
| "names_exprs (ECons e es) = names e @ names_exprs es"
| "names_items INil = []"
| "names_items (ICons k e kvs) = names k @ names e @ names_items kvs"

fun loads :: "stmt \<Rightarrow> string list" where
  "loads (Global xs) = []"
| "loads (Assign x e) = names e"
| "loads (Return e) = names e"

definition uses_locals_only :: "pyfunc \<Rightarrow> bool" where
  "uses_locals_only f =
     (case f of FunctionDef name params body \<Rightarrow>
        list_all (\<lambda>s. list_all (\<lambda>x. x \<in> set (local_names params body)) (loads s @ assigned s)) body)"

definition result_tuple :: "pyfloat \<times> pyfloat \<times> pyfloat \<times> pyfloat \<Rightarrow> pyval" where
  "result_tuple r = (case r of (a, b, c, d) \<Rightarrow> VTuple [VFloat a, VFloat b, VFloat c, VFloat d])"

section \<open>The fixed datasets\<close>

text \<open>
  A data frame is its columns in order, each a name and the list of its cells; the rows
  are indexed from 0. \<^verbatim>\<open>pd.DataFrame\<close> of a dictionary of lists keeps the order of the keys
  and raises \<^verbatim>\<open>ValueError\<close> when the lists differ in length. The four dictionaries are
  those of lines 81 to 130 and 305 to 334 of \<^verbatim>\<open>src/app.py\<close>. Strings are byte strings
  here: the two symbols of the feature table stand as their UTF-8 encodings.
\<close>

datatype cell = PyStr string | PyInt int

type_synonym frame = "(string \<times> cell list) list"

definition DataFrame :: "(string \<times> cell list) list \<Rightarrow> py_error + frame" where
  "DataFrame d =
     (case d of
        [] \<Rightarrow> Inr []
      | (name, col) # rest \<Rightarrow>
          if list_all (\<lambda>(n, c). length c = length col) rest then Inr d else Inl ValueError)"

definition comparison_data :: "(string \<times> cell list) list" where
  "comparison_data =
     [(''Factor'', map PyStr
         [''Development Speed'', ''Scalability'', ''Initial Cost'', ''Ongoing Cost'',
          ''Customizability'', ''Maintenance Effort'', ''Time-to-Market'',
          ''Security Features'', ''Integration Capability'', ''Learning Curve'']),
      (''Microsoft Stack'', map PyInt [7, 6, 8, 7, 9, 6, 7, 8, 9, 8]),
      (''Azure Power Apps'', map PyInt [9, 9, 6, 7, 7, 8, 9, 9, 8, 6])]"

definition timeline_data :: "(string \<times> cell list) list" where
  "timeline_data =
     [(''Phase'', map PyStr
         [''Environment Setup'', ''Base Implementation'', ''Core Features'', ''Integration'',
          ''Testing'', ''Deployment'']),
      (''Microsoft Stack'', map PyInt [30, 45, 60, 45, 30, 15]),
      (''Azure Power Apps'', map PyInt [15, 30, 45, 30, 30, 15]),
      (''Risk Level'', map PyStr [''Low'', ''Medium'', ''High'', ''High'', ''Medium'', ''Low''])]"

definition cost_breakdown :: "(string \<times> cell list) list" where
  "cost_breakdown =
     [(''Category'', map PyStr
         [''Licensing'', ''Infrastructure'', ''Development'', ''Training'', ''Maintenance'']),
      (''Microsoft Stack'', map PyInt [50000, 30000, 80000, 20000, 25000]),
      (''Azure Power Apps'', map PyInt [70000, 15000, 60000, 30000, 15000])]"

definition check_mark :: string where
  "check_mark = [CHR 0xE2, CHR 0x9C, CHR 0x85]"

definition warning_sign :: string where
  "warning_sign = [CHR 0xE2, CHR 0x9A, CHR 0xA0, CHR 0xEF, CHR 0xB8, CHR 0x8F]"

definition features :: "(string \<times> cell list) list" where
  "features =
     [(''Feature'', map PyStr
         [''Built-in Security'', ''Compliance Tools'', ''Mobile Support'',
          ''Custom Development'', ''Third-party Integration'', ''Automated Testing'',
          ''Version Control'', ''Deployment Automation'', ''Performance Monitoring'',
          ''Disaster Recovery'']),
      (''Microsoft Stack'', map PyStr
         [check_mark, check_mark, warning_sign, check_mark, check_mark, check_mark,
          check_mark, check_mark, check_mark, check_mark]),
      (''Azure Power Apps'', map PyStr
         [check_mark, check_mark, check_mark, warning_sign, check_mark, check_mark,
          check_mark, check_mark, check_mark, check_mark]),
      (''Notes'', map PyStr
         [''Both platforms offer enterprise-grade security'',
          ''Built-in compliance features in both'',
          ''Native in Power Apps, requires custom dev in MS Stack'',
          ''Full control in MS Stack, limited in Power Apps'',
          ''Extensive integration capabilities in both'',
          ''Built-in testing tools available'',
          ''Standard source control integration'',
          ''CI/CD pipeline support'',
          ''Comprehensive monitoring tools'',
          ''Built-in DR capabilities''])]"

text \<open>
  The module-level variables that hold the frames, and their assignment when the script
  runs (lines 98, 115, 130 and 334).
\<close>

record datasets =
  df_comparison :: frame
  df_timeline :: frame
  df_costs :: frame
  df_features :: frame


subsection \<open>Reading a frame\<close>


definition getitem :: "frame \<Rightarrow> string \<Rightarrow> py_error + cell list" where
  "getitem df name = dict_get df name"

definition loc :: "frame \<Rightarrow> nat \<Rightarrow> string \<Rightarrow> py_error + cell" where
  "loc df i name =
     and_then (getitem df name) (\<lambda>col. if i < length col then Inr (col ! i) else Inl KeyError)"

fun sequence :: "(py_error + 'a) list \<Rightarrow> py_error + 'a list" where
  "sequence [] = Inr []"
| "sequence (m # ms) = and_then m (\<lambda>x. and_then (sequence ms) (\<lambda>xs. Inr (x # xs)))"

fun cell_add :: "cell \<Rightarrow> cell \<Rightarrow> py_error + cell" where
  "cell_add (PyInt a) (PyInt b) = Inr (PyInt (a + b))"
| "cell_add (PyStr a) (PyStr b) = Inr (PyStr (a @ b))"
| "cell_add a b = Inl TypeError"

fun cell_sub :: "cell \<Rightarrow> cell \<Rightarrow> py_error + cell" where
  "cell_sub (PyInt a) (PyInt b) = Inr (PyInt (a - b))"
| "cell_sub a b = Inl TypeError"

fun series_sum_from :: "cell \<Rightarrow> cell list \<Rightarrow> py_error + cell" where
  "series_sum_from acc [] = Inr acc"
| "series_sum_from acc (c # cs) = and_then (cell_add acc c) (\<lambda>acc'. series_sum_from acc' cs)"

definition series_sum :: "cell list \<Rightarrow> py_error + cell" where
  "series_sum col = (case col of [] \<Rightarrow> Inr (PyInt 0) | c # cs \<Rightarrow> series_sum_from c cs)"

definition series_sub :: "cell list \<Rightarrow> cell list \<Rightarrow> py_error + cell list" where
  "series_sub xs ys = sequence (map (\<lambda>(a, b). cell_sub a b) (zip xs ys))"

subsection \<open>CSV export\<close>

text \<open>
  \<^verbatim>\<open>df.to_csv(index=False)\<close> with the defaults of the library: a header line of the column
  names, then one line per row and no index column; fields separated by commas; a field
  is quoted only when it holds a comma, a double quote or a line break, with every double
  quote doubled; integers in decimal; each line ended by the platform's line separator,
  which is a parameter here.
\<close>

fun digits :: "nat \<Rightarrow> string" where
  "digits n =
     (if n < 10 then [char_of (48 + n)] else digits (n div 10) @ [char_of (48 + n mod 10)])"

definition str_int :: "int \<Rightarrow> string" where
  "str_int i = (if i < 0 then CHR ''-'' # digits (nat (- i)) else digits (nat i))"

definition needs_quotes :: "string \<Rightarrow> bool" where
  "needs_quotes s = list_ex (\<lambda>c. c \<in> set [CHR '','', CHR 0x22, CHR 0x0A, CHR 0x0D]) s"

definition csv_quote :: "string \<Rightarrow> string" where
  "csv_quote s =
     (if needs_quotes s
      then CHR 0x22 # concat (map (\<lambda>c. if c = CHR 0x22 then [c, c] else [c]) s) @ [CHR 0x22]
      else s)"

fun csv_cell :: "cell \<Rightarrow> string" where
  "csv_cell (PyStr s) = csv_quote s"
| "csv_cell (PyInt i) = str_int i"

fun join :: "string \<Rightarrow> string list \<Rightarrow> string" where
  "join sep [] = []"
| "join sep [s] = s"
| "join sep (s # t # ts) = s @ sep @ join sep (t # ts)"

definition csv_rows :: "frame \<Rightarrow> string list list" where
  "csv_rows df = map (csv_quote \<circ> fst) df # map (map csv_cell) (transpose (map snd df))"

definition to_csv :: "string \<Rightarrow> frame \<Rightarrow> string" where
  "to_csv linesep df = concat (map (\<lambda>r. join '','' r @ linesep) (csv_rows df))"

section \<open>The statements of the script that use the datasets\<close>

text \<open>
  The score summary of the first tab (lines 183 to 188): the three columns of the
  comparison frame and the column of their differences.
\<close>

definition score_summary :: "frame \<Rightarrow> py_error + frame" where
  "score_summary df =
     and_then (getitem df ''Factor'') (\<lambda>factor.
     and_then (getitem df ''Microsoft Stack'') (\<lambda>ms.
     and_then (getitem df ''Azure Power Apps'') (\<lambda>pa.
     and_then (getitem df ''Azure Power Apps'') (\<lambda>pa'.
     and_then (getitem df ''Microsoft Stack'') (\<lambda>ms'.
     and_then (series_sub pa' ms') (\<lambda>difference.
     DataFrame
       [(''Factor'', factor), (''Microsoft Stack'', ms), (''Azure Power Apps'', pa),
        (''Difference'', difference)]))))))"

text \<open>
  The bars of the timeline chart (lines 213 to 227), one for each platform and phase: the
  name, the platform, the days, the colour of the risk level and the pair shown on hover.
\<close>

datatype bar = Bar string string cell string "cell \<times> cell"

definition colors :: "(string \<times> string) list" where
  "colors = [(''Low'', ''green''), (''Medium'', ''orange''), (''High'', ''red'')]"

fun format_cell :: "cell \<Rightarrow> string" where
  "format_cell (PyStr s) = s"
| "format_cell (PyInt i) = str_int i"

fun color_of :: "cell \<Rightarrow> py_error + string" where
  "color_of (PyStr s) = dict_get colors s"
| "color_of (PyInt i) = Inl KeyError"

definition timeline_bar :: "frame \<Rightarrow> string \<Rightarrow> nat \<times> cell \<Rightarrow> py_error + bar" where
  "timeline_bar df platform ip =
     (case ip of (i, phase) \<Rightarrow>
        and_then (loc df i platform) (\<lambda>days.
        and_then (loc df i ''Risk Level'') (\<lambda>risk.
        and_then (color_of risk) (\<lambda>color.
        and_then (loc df i ''Risk Level'') (\<lambda>risk'.
        Inr (Bar (platform @ '' - '' @ format_cell phase) platform days color (phase, risk')))))))"

definition timeline_bars :: "frame \<Rightarrow> py_error + bar list" where
  "timeline_bars df =
     sequence (concat (map (\<lambda>platform.
       case getitem df ''Phase'' of
         Inl e \<Rightarrow> [Inl e]
       | Inr phases \<Rightarrow> map (timeline_bar df platform) (zip [0 ..< length phases] phases))
       [''Microsoft Stack'', ''Azure Power Apps'']))"

text \<open>
  The totals of the cost tab (lines 287 to 300): each stack's total and its difference to
  the other, before they are formatted as currency.
\<close>

definition cost_totals :: "frame \<Rightarrow> py_error + (cell \<times> cell \<times> cell \<times> cell)" where
  "cost_totals df =
     and_then (getitem df ''Microsoft Stack'') (\<lambda>ms.
     and_then (series_sum ms) (\<lambda>ms_total.
     and_then (getitem df ''Azure Power Apps'') (\<lambda>pa.
     and_then (series_sum pa) (\<lambda>pa_sum.
     and_then (cell_sub ms_total pa_sum) (\<lambda>ms_delta.
     and_then (getitem df ''Azure Power Apps'') (\<lambda>pa'.
     and_then (series_sum pa') (\<lambda>pa_total.
     and_then (getitem df ''Azure Power Apps'') (\<lambda>pa''.
     and_then (series_sum pa'') (\<lambda>pa_sum'.
     and_then (cell_sub pa_sum' ms_total) (\<lambda>pa_delta.
     Inr (ms_total, ms_delta, pa_total, pa_delta)))))))))))"

text \<open>
  One step of the script: a statement that uses the datasets, or the call of the
  estimator with the values of its four widgets (lines 399 to 401). A step takes the
  variables that hold the frames and returns them with what the statement computes; no
  statement of the script assigns to them or changes a frame in place.
\<close>

datatype op = ScoreSummary | TimelineChart | CostTotals | FeatureTable | ExportComparison
  | ExportCosts | RoiCalculator int int string int

datatype outcome = OutFrame frame | OutBars "bar list" | OutMetrics "cell \<times> cell \<times> cell \<times> cell"
  | OutCsv string | OutRoi "pyfloat \<times> pyfloat \<times> pyfloat \<times> pyfloat"

fun step :: "string \<Rightarrow> datasets \<Rightarrow> op \<Rightarrow> datasets \<times> (py_error + outcome)" where
  "step linesep d ScoreSummary =
     (d, and_then (score_summary (df_comparison d)) (\<lambda>f. Inr (OutFrame f)))"
| "step linesep d TimelineChart =
     (d, and_then (timeline_bars (df_timeline d)) (\<lambda>bs. Inr (OutBars bs)))"
| "step linesep d CostTotals =
     (d, and_then (cost_totals (df_costs d)) (\<lambda>m. Inr (OutMetrics m)))"
| "step linesep d FeatureTable = (d, Inr (OutFrame (df_features d)))"
| "step linesep d ExportComparison = (d, Inr (OutCsv (to_csv linesep (df_comparison d))))"
| "step linesep d ExportCosts = (d, Inr (OutCsv (to_csv linesep (df_costs d))))"
| "step linesep d (RoiCalculator num_users project_months complexity expected_roi) =
     (d, and_then (calculate_costs_and_roi num_users project_months complexity expected_roi)
           (\<lambda>r. Inr (OutRoi r)))"






declare digits.simps [simp del]

section \<open>Properties of the rounding\<close>

subsection \<open>The binary exponent\<close>

lemma powi_rat_pos: "0 < (2::rat) powi k"
  by simp

lemma powi_Suc: "(2::rat) powi (k + 1) = 2 * 2 powi k"
  by (simp add: power_int_add)

lemma powi_pred: "(2::rat) powi (k - 1) = 2 powi k / 2"
  by (simp add: power_int_diff)

lemma bitlen_powi_bounds:
  assumes "0 < n"
  shows "(2::rat) powi (bitlen n - 1) \<le> of_int n" and "of_int n < (2::rat) powi bitlen n"
proof -
  have b: "1 \<le> bitlen n" using assms by (simp add: bitlen_alt_def)
  from bitlen_bounds[OF assms]
  have lo: "2 ^ nat (bitlen n - 1) \<le> n" and hi: "n < 2 ^ nat (bitlen n)" by auto
  have "(of_int (2 ^ nat (bitlen n - 1)) :: rat) \<le> of_int n"
    using lo of_int_le_iff by blast
  then show "(2::rat) powi (bitlen n - 1) \<le> of_int n"
    using b by (simp add: power_int_def)
  have "(of_int n :: rat) < of_int (2 ^ nat (bitlen n))"
    using hi of_int_less_iff by blast
  then show "of_int n < (2::rat) powi bitlen n"
    using b by (simp add: power_int_def)
qed

lemma ilog2_bounds:
  assumes "0 < x"
  shows "2 powi ilog2 x \<le> x \<and> x < 2 powi (ilog2 x + 1)"
proof -
  obtain n d where q: "quotient_of x = (n, d)" by (cases "quotient_of x")
  have d: "0 < d" using q quotient_of_denom_pos by blast
  have x: "x = of_int n / of_int d" using q quotient_of_div by blast
  have n: "0 < n" using assms d x by (simp add: zero_less_divide_iff)
  define k where "k = bitlen n - bitlen d"
  have k: "ilog2 x = (if 2 powi k \<le> x then k else k - 1)"
    by (simp add: ilog2_def q k_def)
  have dpos: "(0::rat) < of_int d" using d by simp
  have "x < 2 powi bitlen n / 2 powi (bitlen d - 1)"
  proof -
    have "x * of_int d = of_int n" using x dpos by simp
    also have "\<dots> < 2 powi bitlen n" using bitlen_powi_bounds(2)[OF n] .
    finally have "x * of_int d < 2 powi bitlen n" .
    moreover have "x * 2 powi (bitlen d - 1) \<le> x * of_int d"
      using bitlen_powi_bounds(1)[OF d] assms by simp
    ultimately have "x * 2 powi (bitlen d - 1) < 2 powi bitlen n" by simp
    then show ?thesis by (simp add: pos_less_divide_eq)
  qed
  then have up: "x < 2 powi (k + 1)"
    by (simp add: k_def power_int_diff power_int_add)
  have "2 powi (bitlen n - 1) / 2 powi bitlen d < x"
  proof -
    have "2 powi (bitlen n - 1) \<le> x * of_int d"
      using bitlen_powi_bounds(1)[OF n] x dpos by simp
    also have "\<dots> < x * 2 powi bitlen d"
      using bitlen_powi_bounds(2)[OF d] assms by simp
    finally show ?thesis by (simp add: pos_divide_less_eq)
  qed
  then have lo: "2 powi (k - 1) < x"
    by (simp add: k_def power_int_diff)
  show ?thesis
  proof (cases "2 powi k \<le> x")
    case True
    then show ?thesis using k up by simp
  next
    case False
    then show ?thesis using k lo by simp
  qed
qed

lemma powi_mono: "k \<le> l \<Longrightarrow> (2::rat) powi k \<le> 2 powi l"
  by (rule power_int_increasing) simp_all

lemma powi_strict_mono: "k < l \<Longrightarrow> (2::rat) powi k < 2 powi l"
  by (rule power_int_strict_increasing) simp_all

lemma ilog2_unique:
  assumes "2 powi k \<le> x" and "x < 2 powi (k + 1)"
  shows "ilog2 x = k"
proof -
  have pos: "0 < x" using assms(1) powi_rat_pos[of k] by linarith
  from ilog2_bounds[OF pos]
  have a: "2 powi ilog2 x \<le> x" and b: "x < 2 powi (ilog2 x + 1)" by auto
  have "\<not> ilog2 x < k"
  proof
    assume "ilog2 x < k"
    then have "ilog2 x + 1 \<le> k" by simp
    then have "(2::rat) powi (ilog2 x + 1) \<le> 2 powi k" by (rule powi_mono)
    with b assms(1) show False by linarith
  qed
  moreover have "\<not> k < ilog2 x"
  proof
    assume "k < ilog2 x"
    then have "k + 1 \<le> ilog2 x" by simp
    then have "(2::rat) powi (k + 1) \<le> 2 powi ilog2 x" by (rule powi_mono)
    with a assms(2) show False by linarith
  qed
  ultimately show ?thesis by linarith
qed

lemma rhe_eqI:
  assumes "\<bar>y - of_int n\<bar> < 1 / 2"
  shows "round_half_even y = n"
proof -
  have r: "round y = n"
    by (rule round_unique') (use assms in \<open>simp add: abs_minus_commute\<close>)
  have "of_int n - y \<noteq> 1 / 2" using assms by linarith
  then show ?thesis by (simp add: round_half_even_def r)
qed

lemma rhe_of_int: "round_half_even (of_int n) = n"
  by (rule rhe_eqI) simp

lemma rhe_err: "\<bar>of_int (round_half_even y) - y\<bar> \<le> 1 / 2"
proof (cases "of_int (round y) - y = 1 / 2 \<and> odd (round y)")
  case True
  then have "round_half_even y = round y - 1" by (simp add: round_half_even_def)
  then show ?thesis using True by simp
next
  case False
  then have "round_half_even y = round y" by (auto simp add: round_half_even_def)
  then show ?thesis using of_int_round_abs_le[of y] by simp
qed

lemma rhe_le_round: "round_half_even y \<le> round y"
  by (simp add: round_half_even_def Let_def)

lemma rhe_mono:
  assumes "x \<le> y"
  shows "round_half_even x \<le> round_half_even y"
proof (cases "of_int (round y) - y = 1 / 2 \<and> odd (round y)")
  case False
  then have "round_half_even y = round y" by (auto simp add: round_half_even_def)
  then show ?thesis using rhe_le_round[of x] round_mono[OF assms] by linarith
next
  case True
  then have y: "round_half_even y = round y - 1" by (simp add: round_half_even_def)
  show ?thesis
  proof (cases "round x \<le> round y - 1")
    case True
    then show ?thesis using rhe_le_round[of x] y by linarith
  next
    case False
    then have rx: "round x = round y" using round_mono[OF assms] by linarith
    have "of_int (round x) - 1 / 2 \<le> x" using of_int_round_abs_le[of x] by linarith
    then have "y \<le> x" using True rx by simp
    then have "x = y" using assms by simp
    then show ?thesis by simp
  qed
qed

lemma rhe_tie:
  assumes "y = of_int f + 1 / 2"
  shows "round_half_even y = (if even f then f else f + 1)"
proof -
  have "round y = f + 1"
    unfolding round_def assms by (simp add: floor_unique)
  then show ?thesis by (auto simp add: round_half_even_def assms)
qed

lemma rhe_minus: "round_half_even (- y) = - round_half_even y"
proof -
  have e: "\<bar>of_int (round_half_even y) - y\<bar> \<le> 1 / 2" by (rule rhe_err)
  show ?thesis
  proof (cases "\<bar>of_int (round_half_even y) - y\<bar> < 1 / 2")
    case True
    show ?thesis by (rule rhe_eqI) (use True in simp)
  next
    case False
    then have t: "\<bar>of_int (round_half_even y) - y\<bar> = 1 / 2" using e by linarith
    then obtain f :: int where f: "y = of_int f + 1 / 2"
    proof (cases "of_int (round_half_even y) \<le> y")
      case True
      then have "y = of_int (round_half_even y) + 1 / 2" using t by linarith
      then show ?thesis using that by blast
    next
      case False
      then have "y = of_int (round_half_even y - 1) + 1 / 2" using t by simp
      then show ?thesis using that by blast
    qed
    have "- y = of_int (- f - 1) + 1 / 2" using f by simp
    from rhe_tie[OF this] rhe_tie[OF f] show ?thesis by auto
  qed
qed

lemma exponent64_minus: "exponent64 (- x) = exponent64 x"
  by (simp add: exponent64_def)

lemma binary64_minus: "binary64 (- x) = - binary64 x"
  by (simp add: binary64_def exponent64_minus rhe_minus)

lemma exponent64_eqI:
  assumes "2 powi (e + 52) \<le> \<bar>x\<bar>" and "\<bar>x\<bar> < 2 powi (e + 53)" and "- 1074 \<le> e"
  shows "exponent64 x = e"
proof -
  have "ilog2 \<bar>x\<bar> = e + 52"
    by (rule ilog2_unique) (use assms in \<open>simp_all add: add.commute add.left_commute\<close>)
  then show ?thesis using assms(3) by (simp add: exponent64_def)
qed

lemma binary64_eqI:
  assumes "2 powi (e + 52) \<le> \<bar>x\<bar>" and "\<bar>x\<bar> < 2 powi (e + 53)" and "- 1074 \<le> e"
    and "\<bar>x / 2 powi e - of_int n\<bar> < 1 / 2"
  shows "binary64 x = of_int n * 2 powi e"
proof -
  have e: "exponent64 x = e" using assms(1-3) by (rule exponent64_eqI)
  have "0 < \<bar>x\<bar>" using assms(1) powi_rat_pos[of "e + 52"] by linarith
  then have "x \<noteq> 0" by simp
  moreover have "round_half_even (x / 2 powi e) = n" using assms(4) by (rule rhe_eqI)
  ultimately show ?thesis by (simp add: binary64_def e)
qed

lemma binary64_abs_err:
  "\<bar>binary64 x - x\<bar> \<le> 2 powi exponent64 x / 2"
proof (cases "x = 0")
  case True
  then show ?thesis by (simp add: binary64_def)
next
  case False
  define p where "p = (2::rat) powi exponent64 x"
  have p: "0 < p" by (simp add: p_def)
  define m where "m = round_half_even (x / p)"
  have "\<bar>of_int m - x / p\<bar> \<le> 1 / 2" unfolding m_def by (rule rhe_err)
  then have "\<bar>of_int m - x / p\<bar> * p \<le> 1 / 2 * p"
    using p by (simp only: mult_le_cancel_right_pos)
  moreover have "\<bar>of_int m - x / p\<bar> * p = \<bar>of_int m * p - x\<bar>"
  proof -
    have "\<bar>of_int m - x / p\<bar> * p = \<bar>(of_int m - x / p) * p\<bar>"
      using p by (simp add: abs_mult)
    also have "(of_int m - x / p) * p = of_int m * p - x"
      using p by (simp add: left_diff_distrib)
    finally show ?thesis .
  qed
  ultimately have "\<bar>of_int m * p - x\<bar> \<le> p / 2" by simp
  moreover have "binary64 x = of_int m * p"
    using False by (simp add: binary64_def p_def m_def)
  ultimately show ?thesis by (simp add: p_def)
qed

lemma binary64_rel_err:
  assumes "2 powi (- 1022) \<le> \<bar>x\<bar>"
  shows "\<bar>binary64 x - x\<bar> \<le> \<bar>x\<bar> / 2 ^ 53"
proof -
  have pos: "0 < \<bar>x\<bar>" using assms powi_rat_pos[of "- 1022"] by linarith
  from ilog2_bounds[OF pos] have lo: "2 powi ilog2 \<bar>x\<bar> \<le> \<bar>x\<bar>"
    and hi: "\<bar>x\<bar> < 2 powi (ilog2 \<bar>x\<bar> + 1)" by auto
  have "\<not> ilog2 \<bar>x\<bar> + 1 \<le> - 1022"
  proof
    assume "ilog2 \<bar>x\<bar> + 1 \<le> - 1022"
    then have "(2::rat) powi (ilog2 \<bar>x\<bar> + 1) \<le> 2 powi (- 1022)" by (rule powi_mono)
    then show False using hi assms by linarith
  qed
  then have e: "exponent64 x = ilog2 \<bar>x\<bar> - 52" by (simp add: exponent64_def)
  have "\<bar>binary64 x - x\<bar> \<le> 2 powi (ilog2 \<bar>x\<bar> - 52) / 2"
    using binary64_abs_err[of x] by (simp add: e)
  also have "\<dots> = 2 powi ilog2 \<bar>x\<bar> / 2 ^ 53"
    by (simp add: power_int_diff)
  also have "\<dots> \<le> \<bar>x\<bar> / 2 ^ 53"
    using lo by (simp add: divide_right_mono)
  finally show ?thesis .
qed

lemma binary64_nonneg:
  assumes "0 \<le> x"
  shows "0 \<le> binary64 x"
proof -
  have "0 \<le> x / 2 powi exponent64 x" using assms by simp
  then have "round_half_even 0 \<le> round_half_even (x / 2 powi exponent64 x)"
    by (rule rhe_mono)
  then have "0 \<le> round_half_even (x / 2 powi exponent64 x)"
    using rhe_of_int[of 0] by simp
  then show ?thesis by (simp add: binary64_def)
qed

lemma ilog2_mono:
  assumes "0 < x" and "x \<le> y"
  shows "ilog2 x \<le> ilog2 y"
proof (rule ccontr)
  assume "\<not> ilog2 x \<le> ilog2 y"
  then have "ilog2 y + 1 \<le> ilog2 x" by simp
  then have "(2::rat) powi (ilog2 y + 1) \<le> 2 powi ilog2 x" by (rule powi_mono)
  moreover have "y < 2 powi (ilog2 y + 1)" using ilog2_bounds[of y] assms by simp
  moreover have "2 powi ilog2 x \<le> x" using ilog2_bounds[OF assms(1)] by simp
  ultimately show False using assms(2) by linarith
qed

lemma exponent64_mono:
  assumes "0 < x" and "x \<le> y"
  shows "exponent64 x \<le> exponent64 y"
proof -
  have "ilog2 \<bar>x\<bar> \<le> ilog2 \<bar>y\<bar>"
    by (rule ilog2_mono) (use assms in simp_all)
  then show ?thesis by (simp add: exponent64_def)
qed

lemma powi_of_int: "0 \<le> k \<Longrightarrow> (2::rat) powi k = of_int (2 ^ nat k)"
  by (simp add: power_int_def)

lemma binary64_pos_unfold:
  "x \<noteq> 0 \<Longrightarrow> binary64 x = of_int (round_half_even (x / 2 powi exponent64 x)) * 2 powi exponent64 x"
  by (simp add: binary64_def)

lemma binary64_mono_pos:
  assumes "0 < x" and "x \<le> y"
  shows "binary64 x \<le> binary64 y"
proof -
  define ex where "ex = exponent64 x"
  define ey where "ey = exponent64 y"
  have y: "0 < y" using assms by linarith
  have rx: "binary64 x = of_int (round_half_even (x / 2 powi ex)) * 2 powi ex"
    using assms(1) by (simp add: binary64_def ex_def)
  have ry: "binary64 y = of_int (round_half_even (y / 2 powi ey)) * 2 powi ey"
    using y by (simp add: binary64_def ey_def)
  have le: "ex \<le> ey" unfolding ex_def ey_def by (rule exponent64_mono) fact+
  show ?thesis
  proof (cases "ex = ey")
    case True
    have "x / 2 powi ey \<le> y / 2 powi ey" using assms(2) by (simp add: divide_right_mono)
    then have "round_half_even (x / 2 powi ey) \<le> round_half_even (y / 2 powi ey)"
      by (rule rhe_mono)
    then have "(of_int (round_half_even (x / 2 powi ey)) :: rat)
        \<le> of_int (round_half_even (y / 2 powi ey))" by simp
    then have "of_int (round_half_even (x / 2 powi ey)) * (2::rat) powi ey
        \<le> of_int (round_half_even (y / 2 powi ey)) * 2 powi ey"
      by (rule mult_right_mono) simp
    then show ?thesis by (simp add: rx ry True)
  next
    case False
    then have lt: "ex < ey" using le by simp
    then have ey: "ey = ilog2 y - 52" and ly: "ilog2 x < ilog2 y"
      using y assms(1) by (auto simp add: ex_def ey_def exponent64_def)
    define B where "B = (2::rat) powi ilog2 y"
    have xB: "x < B"
    proof -
      have "x < 2 powi (ilog2 x + 1)" using ilog2_bounds[OF assms(1)] by simp
      also have "\<dots> \<le> B" unfolding B_def by (rule powi_mono) (use ly in simp)
      finally show ?thesis .
    qed
    have By: "B \<le> y" unfolding B_def using ilog2_bounds[OF y] by simp
    have k: "0 \<le> ilog2 y - ex" using lt ey by simp
    have Bx: "B / 2 powi ex = of_int (2 ^ nat (ilog2 y - ex))"
      unfolding B_def using powi_of_int[OF k] by (simp add: power_int_diff)
    have "x / 2 powi ex \<le> B / 2 powi ex" using xB by (simp add: divide_right_mono)
    then have "round_half_even (x / 2 powi ex) \<le> round_half_even (B / 2 powi ex)"
      by (rule rhe_mono)
    then have "round_half_even (x / 2 powi ex) \<le> 2 ^ nat (ilog2 y - ex)"
      by (simp only: Bx rhe_of_int)
    then have "(of_int (round_half_even (x / 2 powi ex)) :: rat) \<le> of_int (2 ^ nat (ilog2 y - ex))"
      by (simp only: of_int_le_iff)
    then have "of_int (round_half_even (x / 2 powi ex)) * (2::rat) powi ex
        \<le> of_int (2 ^ nat (ilog2 y - ex)) * 2 powi ex"
      by (rule mult_right_mono) simp
    also have "of_int (2 ^ nat (ilog2 y - ex)) * (2::rat) powi ex = B"
      using Bx by (simp add: field_simps)
    finally have 1: "binary64 x \<le> B" by (simp add: rx)
    define M :: int where "M = 2 ^ 52"
    have By': "B / 2 powi ey = of_int M"
      unfolding B_def ey M_def by (simp add: power_int_diff)
    have "B / 2 powi ey \<le> y / 2 powi ey" using By by (simp add: divide_right_mono)
    then have "round_half_even (B / 2 powi ey) \<le> round_half_even (y / 2 powi ey)"
      by (rule rhe_mono)
    then have "M \<le> round_half_even (y / 2 powi ey)"
      by (simp only: By' rhe_of_int)
    then have "(of_int M :: rat) \<le> of_int (round_half_even (y / 2 powi ey))"
      by (simp only: of_int_le_iff)
    then have "of_int M * (2::rat) powi ey
        \<le> of_int (round_half_even (y / 2 powi ey)) * 2 powi ey"
      by (rule mult_right_mono) simp
    moreover have "of_int M * (2::rat) powi ey = B"
      using By' by (simp add: field_simps)
    ultimately have 2: "B \<le> binary64 y" by (simp only: ry)
    from 1 2 show ?thesis by linarith
  qed
qed

lemma binary64_zero: "binary64 0 = 0"
  by (simp add: binary64_def)

lemma binary64_mono:
  assumes "x \<le> y"
  shows "binary64 x \<le> binary64 y"
proof -
  consider "0 < x" | "x \<le> 0" "0 \<le> y" | "y < 0" by linarith
  then show ?thesis
  proof cases
    case 1
    then show ?thesis using assms by (rule binary64_mono_pos)
  next
    case 2
    have "0 \<le> binary64 (- x)" using 2 by (intro binary64_nonneg) simp
    then have "binary64 x \<le> 0" by (simp add: binary64_minus)
    moreover have "0 \<le> binary64 y" using 2 by (intro binary64_nonneg)
    ultimately show ?thesis by linarith
  next
    case 3
    have "binary64 (- y) \<le> binary64 (- x)"
      by (rule binary64_mono_pos) (use 3 assms in simp_all)
    then show ?thesis by (simp add: binary64_minus)
  qed
qed

lemma ilog2_le:
  assumes "0 < x" and "x \<le> 2 powi k"
  shows "ilog2 x \<le> k"
proof (rule ccontr)
  assume "\<not> ilog2 x \<le> k"
  then have "k + 1 \<le> ilog2 x" by simp
  then have "(2::rat) powi (k + 1) \<le> 2 powi ilog2 x" by (rule powi_mono)
  moreover have "2 powi ilog2 x \<le> x" using ilog2_bounds[OF assms(1)] by simp
  moreover have "(2::rat) powi k < 2 powi (k + 1)" by (rule powi_strict_mono) simp
  ultimately show False using assms(2) by linarith
qed

lemma binary64_of_scaled_int:
  assumes "x \<noteq> 0" and "x / 2 powi exponent64 x = of_int m"
  shows "binary64 x = x"
proof -
  have "round_half_even (x / 2 powi exponent64 x) = m"
    by (simp only: assms(2) rhe_of_int)
  then have "binary64 x = of_int m * 2 powi exponent64 x"
    using assms(1) by (simp add: binary64_def)
  also have "\<dots> = x" using assms(2) by (simp add: field_simps)
  finally show ?thesis .
qed

lemma binary64_repr:
  assumes "\<bar>n\<bar> \<le> 2 ^ 53" and "- 1074 \<le> e"
  shows "binary64 (of_int n * 2 powi e) = of_int n * 2 powi e"
proof (cases "n = 0")
  case True
  then show ?thesis by (simp add: binary64_zero)
next
  case False
  define v where "v = (of_int n :: rat) * 2 powi e"
  define e' where "e' = exponent64 v"
  have v0: "v \<noteq> 0" using False by (simp add: v_def)
  have av: "\<bar>v\<bar> = of_int \<bar>n\<bar> * 2 powi e" by (simp add: v_def abs_mult)
  have "(of_int \<bar>n\<bar> :: rat) \<le> of_int (2 ^ 53)" using assms(1) by (simp only: of_int_le_iff)
  then have "(of_int \<bar>n\<bar> :: rat) \<le> 2 powi 53" by simp
  then have "of_int \<bar>n\<bar> * (2::rat) powi e \<le> 2 powi 53 * 2 powi e"
    by (rule mult_right_mono) simp
  then have vle: "\<bar>v\<bar> \<le> 2 powi (e + 53)"
    by (simp add: av power_int_add mult.commute)
  have il: "ilog2 \<bar>v\<bar> \<le> e + 53"
    by (rule ilog2_le) (use v0 vle in simp_all)
  have e'le: "e' \<le> e + 1" using il assms(2) by (simp add: e'_def exponent64_def)
  have "\<exists>m. v / 2 powi e' = of_int m"
  proof (cases "e' \<le> e")
    case True
    then have k: "0 \<le> e - e'" by simp
    have "v / 2 powi e' = of_int n * 2 powi (e - e')"
      by (simp add: v_def power_int_diff)
    also have "\<dots> = of_int (n * 2 ^ nat (e - e'))"
      using powi_of_int[OF k] by simp
    finally show ?thesis by blast
  next
    case False
    then have e': "e' = e + 1" using e'le by simp
    then have "ilog2 \<bar>v\<bar> - 52 = e + 1" using assms(2) by (simp add: e'_def exponent64_def max_def split: if_splits)
    then have "ilog2 \<bar>v\<bar> = e + 53" by simp
    then have "2 powi (e + 53) \<le> \<bar>v\<bar>" using ilog2_bounds[of "\<bar>v\<bar>"] v0 by simp
    then have "\<bar>v\<bar> = 2 powi (e + 53)" using vle by simp
    then have "of_int \<bar>n\<bar> * (2::rat) powi e = 2 powi 53 * 2 powi e"
      by (simp add: av power_int_add mult.commute)
    then have "(of_int \<bar>n\<bar> :: rat) = 2 powi 53" by simp
    then have "(of_int \<bar>n\<bar> :: rat) = of_int (2 ^ 53)" by simp
    then have n: "\<bar>n\<bar> = 2 ^ 53" by (simp only: of_int_eq_iff)
    have "v / 2 powi e' = of_int n / 2"
      by (simp add: v_def e' power_int_add)
    also have "\<dots> = of_int (n div 2)"
    proof -
      from n consider "n = 2 ^ 53" | "n = - (2 ^ 53)" by linarith
      then show ?thesis by cases simp_all
    qed
    finally show ?thesis by blast
  qed
  then obtain m where "v / 2 powi exponent64 v = of_int m" unfolding e'_def by blast
  with v0 have "binary64 v = v" by (rule binary64_of_scaled_int)
  then show ?thesis by (simp add: v_def)
qed


lemma binary64_form:
  "\<exists>n e. binary64 x = of_int n * 2 powi e \<and> \<bar>n\<bar> \<le> 2 ^ 53 \<and> - 1074 \<le> e"
proof (cases "x = 0")
  case True
  have "binary64 x = of_int 0 * 2 powi 0 \<and> \<bar>0::int\<bar> \<le> 2 ^ 53 \<and> - 1074 \<le> (0::int)"
    using True by (simp add: binary64_zero)
  then show ?thesis by blast
next
  case False
  define e where "e = exponent64 x"
  define M :: int where "M = 2 ^ 53"
  have e: "- 1074 \<le> e" and e2: "ilog2 \<bar>x\<bar> + 1 \<le> e + 53"
    by (simp_all add: e_def exponent64_def)
  have "\<bar>x\<bar> < 2 powi (ilog2 \<bar>x\<bar> + 1)" using ilog2_bounds[of "\<bar>x\<bar>"] False by simp
  also have "\<dots> \<le> 2 powi (e + 53)" using e2 by (rule powi_mono)
  finally have "\<bar>x\<bar> / 2 powi e < 2 powi (e + 53) / 2 powi e"
    by (simp add: divide_strict_right_mono)
  also have "2 powi (e + 53) / 2 powi e = (of_int M :: rat)"
    by (simp add: power_int_add M_def)
  finally have b: "\<bar>x / 2 powi e\<bar> < of_int M" by simp
  have "x / 2 powi e \<le> of_int M" using b by linarith
  then have "round_half_even (x / 2 powi e) \<le> round_half_even (of_int M)" by (rule rhe_mono)
  then have 1: "round_half_even (x / 2 powi e) \<le> M" by (simp only: rhe_of_int)
  have "- of_int M \<le> x / 2 powi e" using b by linarith
  then have "of_int (- M) \<le> x / 2 powi e" by (simp only: of_int_minus)
  then have "round_half_even (of_int (- M)) \<le> round_half_even (x / 2 powi e)" by (rule rhe_mono)
  then have 2: "- M \<le> round_half_even (x / 2 powi e)" by (simp only: rhe_of_int)
  have "\<bar>round_half_even (x / 2 powi e)\<bar> \<le> 2 ^ 53" using 1 2 by (simp add: M_def)
  moreover have "binary64 x = of_int (round_half_even (x / 2 powi e)) * 2 powi e"
    using False by (simp add: binary64_def e_def)
  ultimately show ?thesis using e by blast
qed

lemma binary64_idem: "binary64 (binary64 x) = binary64 x"
proof -
  obtain n e where "binary64 x = of_int n * 2 powi e" and "\<bar>n\<bar> \<le> 2 ^ 53" and "- 1074 \<le> e"
    using binary64_form by blast
  then show ?thesis using binary64_repr by simp
qed

lemma binary64_of_int:
  assumes "\<bar>i\<bar> \<le> 2 ^ 53"
  shows "binary64 (of_int i) = of_int i"
  using binary64_repr[OF assms, of 0] by simp

lemma fl_Finite:
  assumes "\<bar>binary64 x\<bar> < 2 ^ 1024"
  shows "fl x = Finite (binary64 x)"
proof -
  have "\<not> 2 ^ 1024 \<le> binary64 x" and "\<not> binary64 x \<le> - (2 ^ 1024)"
    using assms by linarith+
  then show ?thesis unfolding fl_def Let_def by (simp only: if_False)
qed

lemma fl_PInf:
  assumes "2 ^ 1024 \<le> binary64 x"
  shows "fl x = PInf"
  using assms unfolding fl_def Let_def by (simp only: if_True)

lemma fl_cases:
  obtains (Finite) "\<bar>binary64 x\<bar> < 2 ^ 1024" "fl x = Finite (binary64 x)"
  | (PInf) "2 ^ 1024 \<le> binary64 x" "fl x = PInf"
  | (NInf) "binary64 x \<le> - (2 ^ 1024)" "fl x = NInf"
proof -
  consider "2 ^ 1024 \<le> binary64 x" | "\<not> 2 ^ 1024 \<le> binary64 x" "binary64 x \<le> - (2 ^ 1024)"
    | "\<not> 2 ^ 1024 \<le> binary64 x" "\<not> binary64 x \<le> - (2 ^ 1024)" by blast
  then show thesis
  proof cases
    case 1
    then show ?thesis using fl_PInf that(2) by blast
  next
    case 2
    then have "fl x = NInf" unfolding fl_def Let_def by (simp only: if_True if_False)
    then show ?thesis using 2 that(3) by blast
  next
    case 3
    then have "\<bar>binary64 x\<bar> < 2 ^ 1024" by linarith
    then show ?thesis using fl_Finite that(1) by blast
  qed
qed

lemma fl_eq_FiniteD:
  assumes "fl x = Finite r"
  shows "r = binary64 x" and "\<bar>r\<bar> < 2 ^ 1024"
  by (cases x rule: fl_cases; use assms in simp)+

lemma fl_not_NaN: "fl x \<noteq> NaN"
  by (cases x rule: fl_cases) simp_all

lemma fl_mono:
  assumes "x \<le> y"
  shows "float_le (fl x) (fl y)"
proof -
  have m: "binary64 x \<le> binary64 y" using assms by (rule binary64_mono)
  show ?thesis
  proof (cases x rule: fl_cases)
    case Finite
    note fx = this
    show ?thesis
    proof (cases y rule: fl_cases)
      case Finite
      then show ?thesis using fx m by simp
    next
      case PInf
      then show ?thesis using fx by simp
    next
      case NInf
      then have False using fx m by linarith
      then show ?thesis ..
    qed
  next
    case PInf
    then have "2 ^ 1024 \<le> binary64 y" using m by linarith
    then have "fl y = PInf" by (rule fl_PInf)
    then show ?thesis using PInf by simp
  next
    case NInf
    then show ?thesis by (cases y rule: fl_cases) simp_all
  qed
qed

lemma fl_eqI:
  assumes "2 powi (e + 52) \<le> \<bar>x\<bar>" and "\<bar>x\<bar> < 2 powi (e + 53)" and "- 1074 \<le> e"
    and "\<bar>x / 2 powi e - of_int n\<bar> < 1 / 2" and "v = of_int n * 2 powi e"
    and "\<bar>v\<bar> < 2 ^ 1024"
  shows "fl x = Finite v"
proof -
  have "binary64 x = v" using binary64_eqI[OF assms(1-4)] assms(5) by simp
  then show ?thesis using assms(6) fl_Finite[of x] by simp
qed

lemma fl_of_int:
  assumes "\<bar>i\<bar> \<le> 2 ^ 53"
  shows "fl (of_int i) = Finite (of_int i)"
proof -
  have "(of_int \<bar>i\<bar> :: rat) \<le> of_int (2 ^ 53)" using assms by (simp only: of_int_le_iff)
  then have "\<bar>of_int i :: rat\<bar> < 2 ^ 1024" by simp
  then show ?thesis using fl_Finite[of "of_int i"] binary64_of_int[OF assms] by simp
qed

subsection \<open>Evaluating the estimator at a concrete input\<close>

lemma and_then_Inr [simp]: "and_then (Inr x) f = f x"
  by (simp add: and_then_def)

lemma and_then_Inl [simp]: "and_then (Inl e) f = Inl e"
  by (simp add: and_then_def)

lemma fl_one: "fl 1 = Finite 1"
  using fl_of_int[of 1] by simp

lemma fl_zero: "fl 0 = Finite 0"
  using fl_of_int[of 0] by simp

lemma fl_numeral:
  "\<bar>numeral k :: int\<bar> \<le> 2 ^ 53 \<Longrightarrow> fl (numeral k) = Finite (numeral k)"
  using fl_of_int[of "numeral k"] by simp

lemma fl_low: "fl (8 / 10) = Finite (3602879701896397 / 4503599627370496)"
  by (rule fl_eqI[where e = "- 53" and n = 7205759403792794]) simp_all

lemma fl_high: "fl (13 / 10) = Finite (5854679515581645 / 4503599627370496)"
  by (rule fl_eqI[where e = "- 52" and n = 5854679515581645]) simp_all

lemma factor_Low:
  "dict_get complexity_factor ''Low'' = Inr (Finite (3602879701896397 / 4503599627370496))"
  using fl_low by (simp add: dict_get_def complexity_factor_def)

lemma factor_Medium: "dict_get complexity_factor ''Medium'' = Inr (Finite 1)"
  using fl_one by (simp add: dict_get_def complexity_factor_def)

lemma factor_High:
  "dict_get complexity_factor ''High'' = Inr (Finite (5854679515581645 / 4503599627370496))"
  using fl_high by (simp add: dict_get_def complexity_factor_def)

lemma calculate_eval:
  assumes "dict_get complexity_factor c = Inr (Finite f)"
    and "fl (of_int (u * 100 * m + 50000)) = Finite x" and "fl (x * f) = A"
    and "fl (of_int (u * 40 * m + 30000)) = Finite y" and "fl (y * f) = B"
    and "fl (of_int p / 100) = Finite q" and "fl (1 + q) = G"
    and "float_sub (float_mul A G) A = RA" and "float_sub (float_mul B G) B = RB"
  shows "calculate_costs_and_roi u m c p = Inr (A, B, RA, RB)"
  using assms
  by (simp add: calculate_costs_and_roi_def int_mul_float_def int_add_float_def
      float_of_int_def int_truediv_def fl_one)

lemma boundary_low:
  "calculate_costs_and_roi 10 6 ''Low'' 0 = Inr (Finite 44800, Finite 25920, Finite 0, Finite 0)"
proof (rule calculate_eval[OF factor_Low, where x = 56000 and y = 32400 and q = 0 and G = "Finite 1"])
  show "fl (rat_of_int (10 * 100 * 6 + 50000)) = Finite 56000"
    by (simp add: fl_numeral)
  show "fl (56000 * (3602879701896397 / 4503599627370496)) = Finite 44800"
    by (rule fl_eqI[where e = "- 37" and n = 6157265115545600]) simp_all
  show "fl (rat_of_int (10 * 40 * 6 + 30000)) = Finite 32400"
    by (simp add: fl_numeral)
  show "fl (32400 * (3602879701896397 / 4503599627370496)) = Finite 25920"
    by (rule fl_eqI[where e = "- 38" and n = 7124835347988480]) simp_all
  show "fl (rat_of_int 0 / 100) = Finite 0" by (simp add: fl_zero)
  show "fl (1 + 0) = Finite 1" by (simp add: fl_one)
  show "float_sub (float_mul (Finite 44800) (Finite 1)) (Finite 44800) = Finite 0"
    by (simp add: float_sub_def fl_numeral fl_zero)
  show "float_sub (float_mul (Finite 25920) (Finite 1)) (Finite 25920) = Finite 0"
    by (simp add: float_sub_def fl_numeral fl_zero)
qed

lemma boundary_high:
  "calculate_costs_and_roi 1000 36 ''High'' 200
     = Inr (Finite 4745000, Finite 1911000, Finite 9490000, Finite 3822000)"
proof (rule calculate_eval[OF factor_High, where x = 3650000 and y = 1470000 and q = 2 and G = "Finite 3"])
  show "fl (rat_of_int (1000 * 100 * 36 + 50000)) = Finite 3650000"
    by (simp add: fl_numeral)
  show "fl (3650000 * (5854679515581645 / 4503599627370496)) = Finite 4745000"
    by (rule fl_eqI[where e = "- 30" and n = 5094904954880000]) simp_all
  show "fl (rat_of_int (1000 * 40 * 36 + 30000)) = Finite 1470000"
    by (simp add: fl_numeral)
  show "fl (1470000 * (5854679515581645 / 4503599627370496)) = Finite 1911000"
    by (rule fl_eqI[where e = "- 32" and n = 8207682502656000]) simp_all
  show "fl (rat_of_int 200 / 100) = Finite 2" by (simp add: fl_numeral)
  show "fl (1 + 2) = Finite 3" by (simp add: fl_numeral)
  show "float_sub (float_mul (Finite 4745000) (Finite 3)) (Finite 4745000) = Finite 9490000"
    by (simp add: float_sub_def fl_numeral)
  show "float_sub (float_mul (Finite 1911000) (Finite 3)) (Finite 1911000) = Finite 3822000"
    by (simp add: float_sub_def fl_numeral)
qed

section \<open>What the estimator computes\<close>

subsection \<open>The ways the estimator can end\<close>

lemma float_of_int_cases:
  obtains (Inr) x where "fl (of_int i) = Finite x" "float_of_int i = Inr (Finite x)"
  | (Inl) "float_of_int i = Inl OverflowError"
  by (cases "fl (of_int i)") (auto simp add: float_of_int_def)

lemma int_truediv_100_cases:
  obtains (Inr) q where "fl (of_int p / 100) = Finite q" "int_truediv p 100 = Inr (Finite q)"
  | (Inl) "int_truediv p 100 = Inl OverflowError"
  by (cases "fl (of_int p / 100)") (auto simp add: int_truediv_def)

lemma int_add_float_one: "int_add_float 1 (Finite q) = Inr (fl (1 + q))"
  by (simp add: int_add_float_def float_of_int_def fl_one)

lemma int_mul_float_cases:
  obtains (Inr) x where "fl (of_int i) = Finite x" "int_mul_float i f = Inr (float_mul (Finite x) f)"
  | (Inl) "int_mul_float i f = Inl OverflowError"
  by (cases i rule: float_of_int_cases) (auto simp add: int_mul_float_def)

lemma factor_cases:
  assumes "dict_get complexity_factor c = Inr f"
  obtains (Low) "c = ''Low''" "f = Finite (3602879701896397 / 4503599627370496)"
  | (Medium) "c = ''Medium''" "f = Finite 1"
  | (High) "c = ''High''" "f = Finite (5854679515581645 / 4503599627370496)"
  using assms fl_low fl_high fl_one
  by (auto simp add: dict_get_def complexity_factor_def split: if_splits)

lemma factor_missing:
  assumes "c \<noteq> ''Low''" and "c \<noteq> ''Medium''" and "c \<noteq> ''High''"
  shows "dict_get complexity_factor c = Inl KeyError"
  using assms by (simp add: dict_get_def complexity_factor_def)

lemma calculate_unfold:
  assumes "dict_get complexity_factor c = Inr f"
  shows "calculate_costs_and_roi u m c p =
     and_then (int_mul_float (u * 100 * m + 50000) f) (\<lambda>A.
     and_then (int_mul_float (u * 40 * m + 30000) f) (\<lambda>B.
     and_then (int_truediv p 100) (\<lambda>q.
     and_then (int_add_float 1 q) (\<lambda>g.
     Inr (A, B, float_sub (float_mul A g) A, float_sub (float_mul B g) B)))))"
proof -
  have "calculate_costs_and_roi u m c p =
     and_then (int_mul_float (u * 100 * m + 50000) f) (\<lambda>A.
     and_then (int_mul_float (u * 40 * m + 30000) f) (\<lambda>B.
     and_then (int_truediv p 100) (\<lambda>q.
     and_then (int_add_float 1 q) (\<lambda>g.
     and_then (int_truediv p 100) (\<lambda>q'.
     and_then (int_add_float 1 q') (\<lambda>g'.
     Inr (A, B, float_sub (float_mul A g) A, float_sub (float_mul B g') B)))))))"
    by (simp add: calculate_costs_and_roi_def assms)
  also have "\<dots> =
     and_then (int_mul_float (u * 100 * m + 50000) f) (\<lambda>A.
     and_then (int_mul_float (u * 40 * m + 30000) f) (\<lambda>B.
     and_then (int_truediv p 100) (\<lambda>q.
     and_then (int_add_float 1 q) (\<lambda>g.
     Inr (A, B, float_sub (float_mul A g) A, float_sub (float_mul B g) B)))))"
    by (simp add: and_then_def split: sum.splits)
  finally show ?thesis .
qed

lemma calculate_cases:
  assumes "dict_get complexity_factor c = Inr f"
  obtains (Inr) x y q where
      "fl (of_int (u * 100 * m + 50000)) = Finite x"
      "fl (of_int (u * 40 * m + 30000)) = Finite y"
      "fl (of_int p / 100) = Finite q"
      "calculate_costs_and_roi u m c p =
         Inr (float_mul (Finite x) f, float_mul (Finite y) f,
              float_sub (float_mul (float_mul (Finite x) f) (fl (1 + q))) (float_mul (Finite x) f),
              float_sub (float_mul (float_mul (Finite y) f) (fl (1 + q))) (float_mul (Finite y) f))"
  | (Inl) "calculate_costs_and_roi u m c p = Inl OverflowError"
proof (cases "u * 100 * m + 50000" f rule: int_mul_float_cases)
  case Inl
  then show ?thesis using that(2) by (simp add: calculate_unfold[OF assms])
next
  case a: (Inr x)
  show ?thesis
  proof (cases "u * 40 * m + 30000" f rule: int_mul_float_cases)
    case Inl
    then show ?thesis using that(2) a by (simp add: calculate_unfold[OF assms])
  next
    case b: (Inr y)
    show ?thesis
    proof (cases p rule: int_truediv_100_cases)
      case Inl
      then show ?thesis using that(2) a b by (simp add: calculate_unfold[OF assms])
    next
      case (Inr q)
      then show ?thesis using that(1)[of x y q] a b
        by (simp add: calculate_unfold[OF assms] int_add_float_one)
    qed
  qed
qed

lemma spec_factor:
  assumes "complexityFactor c = Some f"
  shows "dict_get complexity_factor c = Inr (fl f)"
proof -
  from assms consider "c = ''Low''" "f = 8 / 10" | "c = ''Medium''" "f = 1"
    | "c = ''High''" "f = 13 / 10"
    unfolding complexityFactor_def by (metis option.inject option.distinct(1))
  then show ?thesis
  proof cases
    case 1
    have "dict_get complexity_factor ''Low'' = Inr (fl (8 / 10))"
      by (simp add: dict_get_def complexity_factor_def)
    then show ?thesis unfolding 1 .
  next
    case 2
    have "dict_get complexity_factor ''Medium'' = Inr (fl 1)"
      by (simp add: dict_get_def complexity_factor_def)
    then show ?thesis unfolding 2 .
  next
    case 3
    have "dict_get complexity_factor ''High'' = Inr (fl (13 / 10))"
      by (simp add: dict_get_def complexity_factor_def)
    then show ?thesis unfolding 3 .
  qed
qed

lemma default_input:
  "calculate_costs_and_roi 50 12 ''Medium'' 100
     = Inr (Finite 110000, Finite 54000, Finite 110000, Finite 54000)"
proof (rule calculate_eval[OF factor_Medium, where x = 110000 and y = 54000 and q = 1 and G = "Finite 2"])
  show "fl (rat_of_int (50 * 100 * 12 + 50000)) = Finite 110000" by (simp add: fl_numeral)
  show "fl (110000 * 1) = Finite 110000" by (simp add: fl_numeral)
  show "fl (rat_of_int (50 * 40 * 12 + 30000)) = Finite 54000" by (simp add: fl_numeral)
  show "fl (54000 * 1) = Finite 54000" by (simp add: fl_numeral)
  show "fl (rat_of_int 100 / 100) = Finite 1" by (simp add: fl_one)
  show "fl (1 + 1) = Finite 2" by (simp add: fl_numeral)
  show "float_sub (float_mul (Finite 110000) (Finite 2)) (Finite 110000) = Finite 110000"
    by (simp add: float_sub_def fl_numeral)
  show "float_sub (float_mul (Finite 54000) (Finite 2)) (Finite 54000) = Finite 54000"
    by (simp add: float_sub_def fl_numeral)
qed

section \<open>Inputs outside the documented domain\<close>

subsection \<open>Integers within the range of a float\<close>

lemma binary64_pow_1023: "binary64 (2 powi 1023) = 2 powi 1023"
  using binary64_repr[of 1 1023] by simp

lemma binary64_bounded:
  assumes "\<bar>x\<bar> \<le> 2 powi 1023"
  shows "\<bar>binary64 x\<bar> \<le> 2 powi 1023"
proof -
  have "binary64 x \<le> binary64 (2 powi 1023)"
    by (rule binary64_mono) (use assms in linarith)
  moreover have "binary64 (- (2 powi 1023)) \<le> binary64 x"
    by (rule binary64_mono) (use assms in linarith)
  ultimately show ?thesis
    by (simp add: binary64_minus binary64_pow_1023 abs_le_iff del: power_int_numeral)
qed

lemma fl_bounded:
  assumes "\<bar>x\<bar> \<le> 2 powi 1023"
  shows "fl x = Finite (binary64 x)"
proof -
  have "(2::rat) powi 1023 < 2 ^ 1024" by simp
  then have "\<bar>binary64 x\<bar> < 2 ^ 1024" using binary64_bounded[OF assms] by linarith
  then show ?thesis by (rule fl_Finite)
qed

lemma float_of_int_bounded:
  assumes "\<bar>i\<bar> \<le> 2 ^ 1023"
  shows "fl (of_int i) = Finite (binary64 (of_int i))"
proof -
  have "(of_int \<bar>i\<bar> :: rat) \<le> of_int (2 ^ 1023)" using assms by (simp only: of_int_le_iff)
  then have "\<bar>of_int i :: rat\<bar> \<le> 2 powi 1023" by simp
  then show ?thesis by (rule fl_bounded)
qed

lemma truediv_bounded:
  assumes "\<bar>p\<bar> \<le> 2 ^ 1023"
  shows "fl (of_int p / 100) = Finite (binary64 (of_int p / 100))"
proof -
  have "(of_int \<bar>p\<bar> :: rat) \<le> of_int (2 ^ 1023)" using assms by (simp only: of_int_le_iff)
  then have "\<bar>of_int p :: rat\<bar> \<le> 2 powi 1023" by simp
  moreover have "\<bar>of_int p / 100 :: rat\<bar> \<le> \<bar>of_int p\<bar>" by simp
  ultimately have "\<bar>of_int p / 100 :: rat\<bar> \<le> 2 powi 1023" by linarith
  then show ?thesis by (rule fl_bounded)
qed

lemma int_mul_float_bounded:
  assumes "\<bar>i\<bar> \<le> 2 ^ 1023"
  shows "int_mul_float i f = Inr (float_mul (Finite (binary64 (of_int i))) f)"
  unfolding int_mul_float_def float_of_int_def float_of_int_bounded[OF assms] by simp

lemma int_truediv_bounded:
  assumes "\<bar>p\<bar> \<le> 2 ^ 1023"
  shows "int_truediv p 100 = Inr (Finite (binary64 (of_int p / 100)))"
  using truediv_bounded[OF assms] by (simp add: int_truediv_def)

lemma estimator_returns:
  assumes "dict_get complexity_factor c = Inr f"
    and "\<bar>u * 100 * m + 50000\<bar> \<le> 2 ^ 1023" and "\<bar>u * 40 * m + 30000\<bar> \<le> 2 ^ 1023"
    and "\<bar>p\<bar> \<le> 2 ^ 1023"
  shows "\<exists>r. calculate_costs_and_roi u m c p = Inr r"
  unfolding calculate_unfold[OF assms(1)] int_mul_float_bounded[OF assms(2)]
    int_mul_float_bounded[OF assms(3)] int_truediv_bounded[OF assms(4)]
  by (simp add: int_add_float_one)

lemma tier_known:
  assumes "c \<in> {''Low'', ''Medium'', ''High''}"
  shows "\<exists>f. dict_get complexity_factor c = Inr f"
  using assms factor_Low factor_Medium factor_High by auto

lemma key_error_iff:
  "calculate_costs_and_roi u m c p = Inl KeyError \<longleftrightarrow> c \<notin> {''Low'', ''Medium'', ''High''}"
proof (cases "c \<in> {''Low'', ''Medium'', ''High''}")
  case True
  then obtain f where f: "dict_get complexity_factor c = Inr f" using tier_known by blast
  have "calculate_costs_and_roi u m c p \<noteq> Inl KeyError"
    by (rule calculate_cases[OF f, of u m p]) simp_all
  then show ?thesis using True by simp
next
  case False
  then have "dict_get complexity_factor c = Inl KeyError" by (simp add: factor_missing)
  then have "calculate_costs_and_roi u m c p = Inl KeyError"
    by (simp add: calculate_costs_and_roi_def)
  then show ?thesis using False by simp
qed

lemma zero_users:
  "calculate_costs_and_roi 0 12 ''Medium'' 100
     = Inr (Finite 50000, Finite 30000, Finite 50000, Finite 30000)"
proof (rule calculate_eval[OF factor_Medium, where x = 50000 and y = 30000 and q = 1 and G = "Finite 2"])
  show "fl (rat_of_int (0 * 100 * 12 + 50000)) = Finite 50000" by (simp add: fl_numeral)
  show "fl (50000 * 1) = Finite 50000" by (simp add: fl_numeral)
  show "fl (rat_of_int (0 * 40 * 12 + 30000)) = Finite 30000" by (simp add: fl_numeral)
  show "fl (30000 * 1) = Finite 30000" by (simp add: fl_numeral)
  show "fl (rat_of_int 100 / 100) = Finite 1" by (simp add: fl_one)
  show "fl (1 + 1) = Finite 2" by (simp add: fl_numeral)
  show "float_sub (float_mul (Finite 50000) (Finite 2)) (Finite 50000) = Finite 50000"
    by (simp add: float_sub_def fl_numeral)
  show "float_sub (float_mul (Finite 30000) (Finite 2)) (Finite 30000) = Finite 30000"
    by (simp add: float_sub_def fl_numeral)
qed

subsection \<open>No validation\<close>

text \<open>
  Claim C3, as the specification states it, has the estimator fail with an
  \<open>InvalidInput\<close> error when userCount is 0. The estimator has no such error and no check:
  with 0 users, 12 months, Medium and 100 percent it returns the four figures of the
  formulas.
\<close>

theorem zero_users_counterexample:
  "calculate_costs_and_roi 0 12 ''Medium'' 100
     = Inr (Finite 50000, Finite 30000, Finite 50000, Finite 30000)"
  by (rule zero_users)

section \<open>The estimator at the boundary inputs\<close>

text \<open>
  Claim C4, as the specification states it, gives \<open>costA = 46400.0\<close> at
  (userCount 10, durationMonths 6, Low, targetRoiPercent 0). The estimator returns
  \<open>44800.0\<close> there: \<open>(10 * 100 * 6 + 50000) * 0.8 = 56000 * 0.8\<close>.
\<close>

theorem boundary_low_counterexample:
  "calculate_costs_and_roi 10 6 ''Low'' 0 = Inr (Finite 44800, Finite 25920, Finite 0, Finite 0)
   \<and> Finite 44800 \<noteq> Finite 46400"
  using boundary_low by simp

text \<open>
  Claim C4, amended: at (10, 6, Low, 0) the estimator returns costA = 44800.0,
  costB = 25920.0, roiA = 0 and roiB = 0, and at (1000, 36, High, 200) it returns
  costA = 4745000.0, costB = 1911000.0, roiA = 9490000.0 and roiB = 3822000.0, each
  exactly, as binary64 values.
\<close>

theorem estimator_boundaries:
  "calculate_costs_and_roi 10 6 ''Low'' 0 = Inr (Finite 44800, Finite 25920, Finite 0, Finite 0)
   \<and> calculate_costs_and_roi 1000 36 ''High'' 200
       = Inr (Finite 4745000, Finite 1911000, Finite 9490000, Finite 3822000)"
  using boundary_low boundary_high by simp

section \<open>The script's steps and the datasets\<close>

subsection \<open>No step changes a dataset\<close>




subsection \<open>The shapes of the datasets\<close>







subsection \<open>The CSV export of the comparison table\<close>

lemma comparison_csv_rows:
  "csv_rows comparison_data =
     [[''Factor'', ''Microsoft Stack'', ''Azure Power Apps''],
      [''Development Speed'', ''7'', ''9''],
      [''Scalability'', ''6'', ''9''],
      [''Initial Cost'', ''8'', ''6''],
      [''Ongoing Cost'', ''7'', ''7''],
      [''Customizability'', ''9'', ''7''],
      [''Maintenance Effort'', ''6'', ''8''],
      [''Time-to-Market'', ''7'', ''9''],
      [''Security Features'', ''8'', ''9''],
      [''Integration Capability'', ''9'', ''8''],
      [''Learning Curve'', ''8'', ''6'']]"
  by code_simp

text \<open>
  Claim C8, as the specification states it, gives the header fields of the exported
  FactorScore table as \<open>Factor, MicrosoftStack, AzurePowerApps\<close>. The columns of the frame
  are named \<open>Microsoft Stack\<close> and \<open>Azure Power Apps\<close>, with spaces, and the export writes
  the names of the columns.
\<close>

theorem comparison_header_counterexample:
  "hd (csv_rows comparison_data) = [''Factor'', ''Microsoft Stack'', ''Azure Power Apps'']
   \<and> hd (csv_rows comparison_data) \<noteq> [''Factor'', ''MicrosoftStack'', ''AzurePowerApps'']"
  by (simp add: comparison_csv_rows)

text \<open>
  Claim C8, amended: the export of the FactorScore table (line 474) is the CSV text of
  the comparison frame: a header row whose fields are exactly \<open>Factor\<close>,
  \<open>Microsoft Stack\<close> and \<open>Azure Power Apps\<close>, no index column, and 10 data rows of three
  comma-separated fields in the order of the factors in the source, each line ended by
  the line separator.
\<close>

theorem comparison_export:
  "snd (step linesep \<lparr>df_comparison = comparison_data, df_timeline = timeline_data,
       df_costs = cost_breakdown, df_features = features\<rparr> ExportComparison)
     = Inr (OutCsv (to_csv linesep comparison_data))
   \<and> csv_rows comparison_data =
     [[''Factor'', ''Microsoft Stack'', ''Azure Power Apps''],
      [''Development Speed'', ''7'', ''9''],
      [''Scalability'', ''6'', ''9''],
      [''Initial Cost'', ''8'', ''6''],
      [''Ongoing Cost'', ''7'', ''7''],
      [''Customizability'', ''9'', ''7''],
      [''Maintenance Effort'', ''6'', ''8''],
      [''Time-to-Market'', ''7'', ''9''],
      [''Security Features'', ''8'', ''9''],
      [''Integration Capability'', ''9'', ''8''],
      [''Learning Curve'', ''8'', ''6'']]
   \<and> to_csv linesep comparison_data =
       ''Factor,Microsoft Stack,Azure Power Apps'' @ linesep
     @ ''Development Speed,7,9'' @ linesep
     @ ''Scalability,6,9'' @ linesep
     @ ''Initial Cost,8,6'' @ linesep
     @ ''Ongoing Cost,7,7'' @ linesep
     @ ''Customizability,9,7'' @ linesep
     @ ''Maintenance Effort,6,8'' @ linesep
     @ ''Time-to-Market,7,9'' @ linesep
     @ ''Security Features,8,9'' @ linesep
     @ ''Integration Capability,9,8'' @ linesep
     @ ''Learning Curve,8,6'' @ linesep"
  by (simp add: to_csv_def comparison_csv_rows)

section \<open>Order relations between the costs\<close>

subsection \<open>Bounds of one rounding, and the shape of a returned result\<close>

lemma tiny_le_half: "(2::rat) powi (- 1022) \<le> 1 / 2"
proof -
  have "(2::rat) powi (- 1022) \<le> 2 powi (- 1)" by (rule powi_mono) simp
  then show ?thesis by simp
qed

lemma binary64_bounds:
  assumes "1 / 2 \<le> y"
  shows "y * (1 - 1 / 2 ^ 53) \<le> binary64 y" and "binary64 y \<le> y * (1 + 1 / 2 ^ 53)"
proof -
  have "2 powi (- 1022) \<le> \<bar>y\<bar>" using assms tiny_le_half by linarith
  then have "\<bar>binary64 y - y\<bar> \<le> \<bar>y\<bar> / 2 ^ 53" by (rule binary64_rel_err)
  moreover have "\<bar>y\<bar> = y" using assms by simp
  ultimately have e: "\<bar>binary64 y - y\<bar> \<le> y / 2 ^ 53" by simp
  have 1: "y * (1 - 1 / 2 ^ 53) = y - y / 2 ^ 53" by (simp add: algebra_simps)
  have 2: "y * (1 + 1 / 2 ^ 53) = y + y / 2 ^ 53" by (simp add: algebra_simps)
  show "y * (1 - 1 / 2 ^ 53) \<le> binary64 y" unfolding 1 using e by linarith
  show "binary64 y \<le> y * (1 + 1 / 2 ^ 53)" unfolding 2 using e by linarith
qed

lemma binary64_one: "binary64 1 = 1"
  using binary64_of_int[of 1] by simp

lemma binary64_ge_one:
  assumes "1 \<le> y"
  shows "1 \<le> binary64 y"
  using binary64_mono[OF assms] by (simp add: binary64_one)

lemma binary64_half: "binary64 (1 / 2) = 1 / 2"
  using binary64_repr[of 1 "- 1"] by simp

lemma binary64_ge_half:
  assumes "1 / 2 \<le> y"
  shows "1 / 2 \<le> binary64 y"
  using binary64_mono[OF assms] by (simp add: binary64_half)

lemma returns_tier:
  assumes "calculate_costs_and_roi u m c p = Inr r"
  obtains f where "dict_get complexity_factor c = Inr f"
proof -
  have "calculate_costs_and_roi u m c p \<noteq> Inl KeyError" using assms by simp
  then have "c \<in> {''Low'', ''Medium'', ''High''}" using key_error_iff by blast
  then show thesis using tier_known that by blast
qed

lemma calculate_InrE:
  assumes "calculate_costs_and_roi u m c p = Inr (A, B, RA, RB)"
  obtains fv q where "dict_get complexity_factor c = Inr (Finite fv)"
    and "fl (of_int (u * 100 * m + 50000)) = Finite (binary64 (of_int (u * 100 * m + 50000)))"
    and "A = fl (binary64 (of_int (u * 100 * m + 50000)) * fv)"
    and "fl (of_int (u * 40 * m + 30000)) = Finite (binary64 (of_int (u * 40 * m + 30000)))"
    and "B = fl (binary64 (of_int (u * 40 * m + 30000)) * fv)"
    and "fl (of_int p / 100) = Finite q"
    and "RA = float_sub (float_mul A (fl (1 + q))) A"
    and "RB = float_sub (float_mul B (fl (1 + q))) B"
proof -
  obtain f where f: "dict_get complexity_factor c = Inr f" using assms by (rule returns_tier)
  then obtain fv where fv: "f = Finite fv" by (rule factor_cases) blast+
  consider (returns) x y q where
      "fl (of_int (u * 100 * m + 50000)) = Finite x"
      "fl (of_int (u * 40 * m + 30000)) = Finite y"
      "fl (of_int p / 100) = Finite q"
      "calculate_costs_and_roi u m c p =
         Inr (float_mul (Finite x) f, float_mul (Finite y) f,
              float_sub (float_mul (float_mul (Finite x) f) (fl (1 + q))) (float_mul (Finite x) f),
              float_sub (float_mul (float_mul (Finite y) f) (fl (1 + q))) (float_mul (Finite y) f))"
    | (raises) "calculate_costs_and_roi u m c p = Inl OverflowError"
    by (rule calculate_cases[OF f, of u m p]) blast+
  then show thesis
  proof cases
    case (returns x y q)
    have x: "x = binary64 (of_int (u * 100 * m + 50000))" using returns(1) by (rule fl_eq_FiniteD)
    have y: "y = binary64 (of_int (u * 40 * m + 30000))" using returns(2) by (rule fl_eq_FiniteD)
    have A: "A = fl (x * fv)" and B: "B = fl (y * fv)"
      and RA: "RA = float_sub (float_mul A (fl (1 + q))) A"
      and RB: "RB = float_sub (float_mul B (fl (1 + q))) B"
      using returns(4) assms by (simp_all add: fv)
    show ?thesis
      using that[of fv q] f returns(1,2,3) A B RA RB unfolding fv x[symmetric] y[symmetric]
      by blast
  next
    case raises
    then show ?thesis using assms by simp
  qed
qed

lemma factor_positive:
  assumes "dict_get complexity_factor c = Inr (Finite fv)"
  shows "0 < fv"
  using assms by (rule factor_cases) simp_all

lemma base_mono:
  fixes u m :: int
  assumes "0 < u" and "u \<le> u'" and "0 < m" and "m \<le> m'" and "0 \<le> k"
  shows "u * k * m + b \<le> u' * k * m' + b"
proof -
  have "u * m \<le> u' * m'" using assms by (intro mult_mono) simp_all
  then have "k * (u * m) \<le> k * (u' * m')" using assms(5) by (rule mult_left_mono)
  then show ?thesis by (simp add: algebra_simps)
qed

lemma cost_mono:
  assumes "i \<le> j" and "0 < fv"
  shows "float_le (fl (binary64 (of_int i) * fv)) (fl (binary64 (of_int j) * fv))"
proof -
  have "(of_int i :: rat) \<le> of_int j" using assms(1) by simp
  then have "binary64 (of_int i) \<le> binary64 (of_int j)" by (rule binary64_mono)
  then have "binary64 (of_int i) * fv \<le> binary64 (of_int j) * fv"
    using assms(2) by (simp add: mult_right_mono)
  then show ?thesis by (rule fl_mono)
qed

lemma cost_nonneg:
  assumes "0 \<le> i" and "0 < fv"
  shows "float_le (Finite 0) (fl (binary64 (of_int i) * fv))"
proof -
  have "(0::rat) \<le> of_int i" using assms(1) by simp
  then have "0 \<le> binary64 (of_int i)" by (rule binary64_nonneg)
  then have "0 \<le> binary64 (of_int i) * fv" using assms(2) by simp
  then have "float_le (fl 0) (fl (binary64 (of_int i) * fv))" by (rule fl_mono)
  then show ?thesis by (simp add: fl_zero)
qed

lemma small_medium:
  "calculate_costs_and_roi 10 6 ''Medium'' 0 = Inr (Finite 56000, Finite 32400, Finite 0, Finite 0)"
proof (rule calculate_eval[OF factor_Medium, where x = 56000 and y = 32400 and q = 0 and G = "Finite 1"])
  show "fl (rat_of_int (10 * 100 * 6 + 50000)) = Finite 56000" by (simp add: fl_numeral)
  show "fl (56000 * 1) = Finite 56000" by (simp add: fl_numeral)
  show "fl (rat_of_int (10 * 40 * 6 + 30000)) = Finite 32400" by (simp add: fl_numeral)
  show "fl (32400 * 1) = Finite 32400" by (simp add: fl_numeral)
  show "fl (rat_of_int 0 / 100) = Finite 0" by (simp add: fl_zero)
  show "fl (1 + 0) = Finite 1" by (simp add: fl_one)
  show "float_sub (float_mul (Finite 56000) (Finite 1)) (Finite 56000) = Finite 0"
    by (simp add: float_sub_def fl_numeral fl_zero)
  show "float_sub (float_mul (Finite 32400) (Finite 1)) (Finite 32400) = Finite 0"
    by (simp add: float_sub_def fl_numeral fl_zero)
qed

lemma small_high:
  "calculate_costs_and_roi 10 6 ''High'' 0 = Inr (Finite 72800, Finite 42120, Finite 0, Finite 0)"
proof (rule calculate_eval[OF factor_High, where x = 56000 and y = 32400 and q = 0 and G = "Finite 1"])
  show "fl (rat_of_int (10 * 100 * 6 + 50000)) = Finite 56000" by (simp add: fl_numeral)
  show "fl (56000 * (5854679515581645 / 4503599627370496)) = Finite 72800"
    by (rule fl_eqI[where e = "- 36" and n = 5002777906380800]) simp_all
  show "fl (rat_of_int (10 * 40 * 6 + 30000)) = Finite 32400" by (simp add: fl_numeral)
  show "fl (32400 * (5854679515581645 / 4503599627370496)) = Finite 42120"
    by (rule fl_eqI[where e = "- 37" and n = 5788928720240640]) simp_all
  show "fl (rat_of_int 0 / 100) = Finite 0" by (simp add: fl_zero)
  show "fl (1 + 0) = Finite 1" by (simp add: fl_one)
  show "float_sub (float_mul (Finite 72800) (Finite 1)) (Finite 72800) = Finite 0"
    by (simp add: float_sub_def fl_numeral fl_zero)
  show "float_sub (float_mul (Finite 42120) (Finite 1)) (Finite 42120) = Finite 0"
    by (simp add: float_sub_def fl_numeral fl_zero)
qed

subsection \<open>Costs grow with the users and the months\<close>

text \<open>
  Claim C5: for all valid inputs (a positive userCount and durationMonths, and a tier
  and a percentage with which the estimator returns), costA and costB are non-negative,
  and neither decreases when userCount or durationMonths grows and the tier stays the
  same. The comparison is Python's \<open><=\<close> on the returned floats.
\<close>

theorem costs_monotone:
  assumes "0 < users" and "users \<le> users'" and "0 < months" and "months \<le> months'"
    and "calculate_costs_and_roi users months complexity roi_percentage
           = Inr (costA, costB, roiA, roiB)"
    and "calculate_costs_and_roi users' months' complexity roi_percentage'
           = Inr (costA', costB', roiA', roiB')"
  shows "float_le (Finite 0) costA \<and> float_le (Finite 0) costB
    \<and> float_le costA costA' \<and> float_le costB costB'"
proof -
  from assms(5) obtain fv q where f: "dict_get complexity_factor complexity = Inr (Finite fv)"
    and A: "costA = fl (binary64 (of_int (users * 100 * months + 50000)) * fv)"
    and B: "costB = fl (binary64 (of_int (users * 40 * months + 30000)) * fv)"
    by (rule calculate_InrE)
  from assms(6) obtain fv' q' where f': "dict_get complexity_factor complexity = Inr (Finite fv')"
    and A': "costA' = fl (binary64 (of_int (users' * 100 * months' + 50000)) * fv')"
    and B': "costB' = fl (binary64 (of_int (users' * 40 * months' + 30000)) * fv')"
    by (rule calculate_InrE)
  have same: "fv' = fv" using f f' by simp
  have pos: "0 < fv" using f by (rule factor_positive)
  have um: "0 \<le> users * months" using assms(1,3) by simp
  have a0: "0 \<le> users * 100 * months + 50000" using um by (simp add: algebra_simps)
  have b0: "0 \<le> users * 40 * months + 30000" using um by (simp add: algebra_simps)
  have a1: "users * 100 * months + 50000 \<le> users' * 100 * months' + 50000"
    using assms(1-4) by (intro base_mono) simp_all
  have b1: "users * 40 * months + 30000 \<le> users' * 40 * months' + 30000"
    using assms(1-4) by (intro base_mono) simp_all
  show ?thesis
    unfolding A B A' B' same
    using cost_nonneg[OF a0 pos] cost_nonneg[OF b0 pos] cost_mono[OF a1 pos] cost_mono[OF b1 pos]
    by blast
qed

text \<open>
  The instance of claim C5 that compares 10 users over 6 months with 50 users over 12
  months, both Medium.
\<close>

theorem costs_monotone_witness:
  "(0::int) < 10 \<and> (10::int) \<le> 50 \<and> (0::int) < 6 \<and> (6::int) \<le> 12
   \<and> calculate_costs_and_roi 10 6 ''Medium'' 0 = Inr (Finite 56000, Finite 32400, Finite 0, Finite 0)
   \<and> calculate_costs_and_roi 50 12 ''Medium'' 100
       = Inr (Finite 110000, Finite 54000, Finite 110000, Finite 54000)
   \<and> float_le (Finite 0) (Finite 56000) \<and> float_le (Finite 0) (Finite 32400)
   \<and> float_le (Finite 56000) (Finite 110000) \<and> float_le (Finite 32400) (Finite 54000)"
  using costs_monotone[OF _ _ _ _ small_medium default_input] small_medium default_input
  by simp

subsection \<open>The tiers order the costs strictly\<close>

lemma base_ge_one:
  fixes u m :: int
  assumes "0 < u" and "0 < m" and "0 \<le> k" and "1 \<le> b"
  shows "1 \<le> u * k * m + b"
proof -
  have "0 \<le> k * (u * m)" using assms by simp
  then show ?thesis using assms(4) by (simp add: algebra_simps)
qed

lemma converted_base:
  assumes "1 \<le> i" and "fl (of_int i) = Finite (binary64 (of_int i))"
  shows "1 \<le> binary64 (of_int i)" and "binary64 (of_int i) < 2 ^ 1024"
proof -
  have "(1::rat) \<le> of_int i" using assms(1) by simp
  then show "1 \<le> binary64 (of_int i)" by (rule binary64_ge_one)
  have "\<bar>binary64 (of_int i)\<bar> < 2 ^ 1024" using assms(2) by (rule fl_eq_FiniteD)
  then show "binary64 (of_int i) < 2 ^ 1024" by linarith
qed

lemma medium_cost:
  assumes "fl (of_int i) = Finite (binary64 (of_int i))"
  shows "fl (binary64 (of_int i) * 1) = Finite (binary64 (of_int i))"
proof -
  have "\<bar>binary64 (of_int i)\<bar> < 2 ^ 1024" using assms by (rule fl_eq_FiniteD)
  then have "\<bar>binary64 (binary64 (of_int i))\<bar> < 2 ^ 1024" by (simp only: binary64_idem)
  then have "fl (binary64 (of_int i)) = Finite (binary64 (binary64 (of_int i)))" by (rule fl_Finite)
  then show ?thesis by (simp only: binary64_idem mult_1_right)
qed

lemma low_cost:
  assumes "1 \<le> x" and "x < 2 ^ 1024"
  shows "\<exists>v. fl (x * (3602879701896397 / 4503599627370496)) = Finite v \<and> v < x"
proof -
  define y where "y = x * (3602879701896397 / 4503599627370496)"
  have y: "1 / 2 \<le> y" using assms(1) by (simp add: y_def)
  have "binary64 y \<le> y * (1 + 1 / 2 ^ 53)" using y by (rule binary64_bounds)
  also have "\<dots> = x * (3602879701896397 / 4503599627370496 * (1 + 1 / 2 ^ 53))"
    by (simp add: y_def)
  also have "\<dots> < x * 1"
    using assms(1) by (intro mult_strict_left_mono) simp_all
  finally have up: "binary64 y < x" by simp
  have "0 \<le> binary64 y" using y by (intro binary64_nonneg) simp
  then have "\<bar>binary64 y\<bar> < 2 ^ 1024" using up assms(2) by linarith
  then have "fl y = Finite (binary64 y)" by (rule fl_Finite)
  then show ?thesis using up unfolding y_def by blast
qed

lemma high_cost:
  assumes "1 \<le> x"
  shows "float_lt (Finite x) (fl (x * (5854679515581645 / 4503599627370496)))"
proof -
  define y where "y = x * (5854679515581645 / 4503599627370496)"
  have y: "1 / 2 \<le> y" using assms(1) by (simp add: y_def)
  have "x * 1 < x * (5854679515581645 / 4503599627370496 * (1 - 1 / 2 ^ 53))"
    using assms(1) by (intro mult_strict_left_mono) simp_all
  also have "\<dots> = y * (1 - 1 / 2 ^ 53)" by (simp add: y_def)
  also have "\<dots> \<le> binary64 y" using y by (rule binary64_bounds)
  finally have lo: "x < binary64 y" by simp
  have "float_lt (Finite x) (fl y)"
  proof (cases y rule: fl_cases)
    case Finite
    then show ?thesis using lo by simp
  next
    case PInf
    then show ?thesis by simp
  next
    case NInf
    moreover have "(0::rat) < 2 ^ 1024" by simp
    ultimately have "binary64 y < 0" by linarith
    then show ?thesis using lo assms by linarith
  qed
  then show ?thesis by (simp only: y_def)
qed

lemma tier_order:
  assumes "1 \<le> i" and "fl (of_int i) = Finite (binary64 (of_int i))"
  shows "float_lt (fl (binary64 (of_int i) * (3602879701896397 / 4503599627370496)))
           (fl (binary64 (of_int i) * 1))
    \<and> float_lt (fl (binary64 (of_int i) * 1))
           (fl (binary64 (of_int i) * (5854679515581645 / 4503599627370496)))"
proof -
  define x where "x = binary64 (of_int i)"
  have x: "1 \<le> x" "x < 2 ^ 1024" unfolding x_def using converted_base[OF assms] by blast+
  have m: "fl (x * 1) = Finite x" unfolding x_def using assms(2) by (rule medium_cost)
  obtain v where "fl (x * (3602879701896397 / 4503599627370496)) = Finite v" and "v < x"
    using low_cost[OF x] by blast
  then have "float_lt (fl (x * (3602879701896397 / 4503599627370496))) (fl (x * 1))"
    by (simp only: m float_lt.simps)
  moreover have "float_lt (fl (x * 1)) (fl (x * (5854679515581645 / 4503599627370496)))"
    using high_cost[OF x(1)] by (simp only: m)
  ultimately show ?thesis unfolding x_def by blast
qed

text \<open>
  Claim C6: for a fixed positive userCount and durationMonths, the costs of the three
  tiers are strictly ordered, cost(High) > cost(Medium) > cost(Low), for costA and for
  costB, whenever the estimator returns for the three tiers. The comparison is Python's
  \<open><\<close> on the returned floats.
\<close>

theorem costs_ordered_by_tier:
  assumes "0 < users" and "0 < months"
    and "calculate_costs_and_roi users months ''Low'' roi_percentage
           = Inr (costA_low, costB_low, roiA_low, roiB_low)"
    and "calculate_costs_and_roi users months ''Medium'' roi_percentage
           = Inr (costA_medium, costB_medium, roiA_medium, roiB_medium)"
    and "calculate_costs_and_roi users months ''High'' roi_percentage
           = Inr (costA_high, costB_high, roiA_high, roiB_high)"
  shows "float_lt costA_low costA_medium \<and> float_lt costA_medium costA_high
    \<and> float_lt costB_low costB_medium \<and> float_lt costB_medium costB_high"
proof -
  let ?a = "users * 100 * months + 50000" and ?b = "users * 40 * months + 30000"
  have a: "1 \<le> ?a" and b: "1 \<le> ?b" using assms(1,2) by (intro base_ge_one; simp)+
  from assms(3) obtain f1 q1 where "dict_get complexity_factor ''Low'' = Inr (Finite f1)"
    and ca: "fl (of_int ?a) = Finite (binary64 (of_int ?a))"
    and AL: "costA_low = fl (binary64 (of_int ?a) * f1)"
    and cb: "fl (of_int ?b) = Finite (binary64 (of_int ?b))"
    and BL: "costB_low = fl (binary64 (of_int ?b) * f1)"
    by (rule calculate_InrE)
  then have f1: "f1 = 3602879701896397 / 4503599627370496" using factor_Low by simp
  from assms(4) obtain f2 q2 where "dict_get complexity_factor ''Medium'' = Inr (Finite f2)"
    and AM: "costA_medium = fl (binary64 (of_int ?a) * f2)"
    and BM: "costB_medium = fl (binary64 (of_int ?b) * f2)"
    by (rule calculate_InrE)
  then have f2: "f2 = 1" using factor_Medium by simp
  from assms(5) obtain f3 q3 where "dict_get complexity_factor ''High'' = Inr (Finite f3)"
    and AH: "costA_high = fl (binary64 (of_int ?a) * f3)"
    and BH: "costB_high = fl (binary64 (of_int ?b) * f3)"
    by (rule calculate_InrE)
  then have f3: "f3 = 5854679515581645 / 4503599627370496" using factor_High by simp
  show ?thesis
    unfolding AL AM AH BL BM BH f1 f2 f3
    using tier_order[OF a ca] tier_order[OF b cb] by blast
qed

text \<open>The instance of claim C6 at 10 users and 6 months.\<close>

theorem costs_ordered_by_tier_witness:
  "(0::int) < 10 \<and> (0::int) < 6
   \<and> calculate_costs_and_roi 10 6 ''Low'' 0 = Inr (Finite 44800, Finite 25920, Finite 0, Finite 0)
   \<and> calculate_costs_and_roi 10 6 ''Medium'' 0 = Inr (Finite 56000, Finite 32400, Finite 0, Finite 0)
   \<and> calculate_costs_and_roi 10 6 ''High'' 0 = Inr (Finite 72800, Finite 42120, Finite 0, Finite 0)
   \<and> float_lt (Finite 44800) (Finite 56000) \<and> float_lt (Finite 56000) (Finite 72800)
   \<and> float_lt (Finite 25920) (Finite 32400) \<and> float_lt (Finite 32400) (Finite 42120)"
  using costs_ordered_by_tier[OF _ _ boundary_low small_medium small_high]
    boundary_low small_medium small_high
  by simp

section \<open>The low-code stack against the traditional stack\<close>

subsection \<open>Two roundings keep the ratio of the cost bases\<close>

lemma two_roundings:
  assumes "1 \<le> i" and "1 / 2 \<le> fv"
  shows "of_int i * fv * (1 - 1 / 2 ^ 53)\<^sup>2 \<le> binary64 (binary64 (of_int i) * fv)"
    and "binary64 (binary64 (of_int i) * fv) \<le> of_int i * fv * (1 + 1 / 2 ^ 53)\<^sup>2"
    and "1 / 2 \<le> binary64 (binary64 (of_int i) * fv)"
proof -
  define x where "x = binary64 (of_int i)"
  define y where "y = x * fv"
  have i: "(1::rat) \<le> of_int i" using assms(1) by simp
  then have i2: "(1::rat) / 2 \<le> of_int i" by linarith
  have x1: "1 \<le> x" unfolding x_def using i by (rule binary64_ge_one)
  have xl: "of_int i * (1 - 1 / 2 ^ 53) \<le> x" and xu: "x \<le> of_int i * (1 + 1 / 2 ^ 53)"
    unfolding x_def using binary64_bounds[OF i2] by blast+
  have "1 * (1 / 2) \<le> x * fv" using x1 assms(2) by (intro mult_mono) simp_all
  then have y: "1 / 2 \<le> y" by (simp add: y_def)
  have yl: "y * (1 - 1 / 2 ^ 53) \<le> binary64 y" and yu: "binary64 y \<le> y * (1 + 1 / 2 ^ 53)"
    using binary64_bounds[OF y] by blast+
  have fv: "0 \<le> fv" using assms(2) by linarith
  have "of_int i * fv * (1 - 1 / 2 ^ 53)\<^sup>2 = (of_int i * (1 - 1 / 2 ^ 53)) * fv * (1 - 1 / 2 ^ 53)"
    by (simp add: power2_eq_square)
  also have "\<dots> \<le> x * fv * (1 - 1 / 2 ^ 53)"
    using xl fv by (intro mult_right_mono) simp_all
  also have "\<dots> \<le> binary64 y" using yl by (simp add: y_def)
  finally show "of_int i * fv * (1 - 1 / 2 ^ 53)\<^sup>2 \<le> binary64 (binary64 (of_int i) * fv)"
    by (simp add: y_def x_def)
  have "binary64 y \<le> x * fv * (1 + 1 / 2 ^ 53)" using yu by (simp add: y_def)
  also have "\<dots> \<le> (of_int i * (1 + 1 / 2 ^ 53)) * fv * (1 + 1 / 2 ^ 53)"
    using xu fv by (intro mult_right_mono) simp_all
  also have "\<dots> = of_int i * fv * (1 + 1 / 2 ^ 53)\<^sup>2"
    by (simp add: power2_eq_square)
  finally show "binary64 (binary64 (of_int i) * fv) \<le> of_int i * fv * (1 + 1 / 2 ^ 53)\<^sup>2"
    by (simp add: y_def x_def)
  show "1 / 2 \<le> binary64 (binary64 (of_int i) * fv)"
    using binary64_ge_half[OF y] by (simp add: y_def x_def)
qed

lemma cost_ratio:
  assumes "1 \<le> b" and "5 * b \<le> 3 * a" and "1 / 2 \<le> fv"
  shows "binary64 (binary64 (of_int b) * fv) \<le> 61 / 100 * binary64 (binary64 (of_int a) * fv)"
proof -
  have a1: "1 \<le> a" using assms(1,2) by linarith
  have fv: "0 \<le> fv" using assms(3) by linarith
  have "(of_int (5 * b) :: rat) \<le> of_int (3 * a)" using assms(2) by (simp only: of_int_le_iff)
  then have ba: "(of_int b :: rat) \<le> 3 / 5 * of_int a" by simp
  have w: "(0::rat) \<le> of_int a * fv" using a1 fv by simp
  have "binary64 (binary64 (of_int b) * fv) \<le> of_int b * fv * (1 + 1 / 2 ^ 53)\<^sup>2"
    using two_roundings(2)[OF assms(1,3)] .
  also have "\<dots> \<le> (3 / 5 * of_int a) * fv * (1 + 1 / 2 ^ 53)\<^sup>2"
    using ba fv by (intro mult_right_mono) simp_all
  also have "\<dots> = (of_int a * fv) * (3 / 5 * (1 + 1 / 2 ^ 53)\<^sup>2)" by simp
  also have "\<dots> \<le> (of_int a * fv) * (61 / 100 * (1 - 1 / 2 ^ 53)\<^sup>2)"
    using w by (intro mult_left_mono) (simp_all add: power2_eq_square)
  also have "\<dots> = 61 / 100 * (of_int a * fv * (1 - 1 / 2 ^ 53)\<^sup>2)" by simp
  also have "\<dots> \<le> 61 / 100 * binary64 (binary64 (of_int a) * fv)"
    by (intro mult_left_mono two_roundings(1)[OF a1 assms(3)]) simp
  finally show ?thesis .
qed

lemma costB_below_convertedA:
  assumes "1 \<le> b" and "5 * b \<le> 3 * a" and "1 / 2 \<le> fv" and "fv \<le> 131 / 100"
  shows "binary64 (binary64 (of_int b) * fv) < binary64 (of_int a)"
proof -
  define cb where "cb = binary64 (binary64 (of_int b) * fv)"
  define xa where "xa = binary64 (of_int a)"
  have a1: "1 \<le> a" using assms(1,2) by linarith
  then have ia: "(1::rat) \<le> of_int a" by simp
  then have ia2: "(1::rat) / 2 \<le> of_int a" by linarith
  have xa1: "1 \<le> xa" unfolding xa_def using ia by (rule binary64_ge_one)
  have xal: "of_int a * (1 - 1 / 2 ^ 53) \<le> xa"
    unfolding xa_def using binary64_bounds[OF ia2] by blast
  have fv: "0 \<le> fv" using assms(3) by linarith
  have "(of_int (5 * b) :: rat) \<le> of_int (3 * a)" using assms(2) by (simp only: of_int_le_iff)
  then have ba: "(of_int b :: rat) \<le> 3 / 5 * of_int a" by simp
  have "cb \<le> of_int b * fv * (1 + 1 / 2 ^ 53)\<^sup>2"
    unfolding cb_def using two_roundings(2)[OF assms(1,3)] .
  also have "\<dots> \<le> (3 / 5 * of_int a) * (131 / 100) * (1 + 1 / 2 ^ 53)\<^sup>2"
    using ba fv assms(4) ia by (intro mult_right_mono mult_mono) simp_all
  finally have "cb \<le> of_int a * (3 / 5 * (131 / 100) * (1 + 1 / 2 ^ 53)\<^sup>2)" by simp
  also have "\<dots> \<le> of_int a * ((1 - 1 / 2 ^ 53) * (4 / 5))"
    using ia by (intro mult_left_mono) (simp_all add: power2_eq_square)
  also have "\<dots> = (of_int a * (1 - 1 / 2 ^ 53)) * (4 / 5)" by simp
  also have "\<dots> \<le> xa * (4 / 5)" using xal by (intro mult_right_mono) simp_all
  also have "\<dots> < xa" using xa1 by simp
  finally show ?thesis by (simp add: cb_def xa_def)
qed

subsection \<open>The ROI figures of two costs far apart\<close>

lemma factor_range:
  assumes "dict_get complexity_factor c = Inr (Finite fv)"
  shows "1 / 2 \<le> fv" and "fv \<le> 131 / 100"
  using assms by (rule factor_cases; simp)+

lemma fl_nonneg_cases [consumes 1, case_names Finite PInf]:
  assumes "0 \<le> y"
  obtains (Finite) "fl y = Finite (binary64 y)" "0 \<le> binary64 y" "binary64 y < 2 ^ 1024"
  | (PInf) "fl y = PInf" "2 ^ 1024 \<le> binary64 y"
proof -
  have n: "0 \<le> binary64 y" using assms by (rule binary64_nonneg)
  show thesis
  proof (cases y rule: fl_cases)
    case Finite
    then show ?thesis using n that(1) by simp
  next
    case PInf
    then show ?thesis using that(2) by simp
  next
    case NInf
    moreover have "(0::rat) < 2 ^ 1024" by simp
    ultimately show ?thesis using n by linarith
  qed
qed

lemma roi_of_zero_percent:
  assumes "binary64 c = c" and "\<bar>c\<bar> < 2 ^ 1024"
  shows "float_sub (float_mul (Finite c) (Finite 1)) (Finite c) = Finite 0"
proof -
  have "fl c = Finite c" using fl_Finite[of c] assms by simp
  then show ?thesis by (simp add: float_sub_def fl_zero)
qed

lemma growth_lower:
  assumes "1 \<le> p"
  shows "129 / 128 * (1 - 1 / 2 ^ 53) \<le> binary64 (1 + binary64 (of_int p / 100))"
proof -
  have "(1::rat) \<le> of_int p" using assms by simp
  then have "(1::rat) / 128 \<le> of_int p / 100" by simp
  then have "binary64 (1 / 128) \<le> binary64 (of_int p / 100)" by (rule binary64_mono)
  moreover have "binary64 (1 / 128) = 1 / 128" using binary64_repr[of 1 "- 7"] by simp
  ultimately have q: "1 / 128 \<le> binary64 (of_int p / 100)" by simp
  define s where "s = 1 + binary64 (of_int p / 100)"
  have s: "129 / 128 \<le> s" using q by (simp add: s_def)
  then have "1 / 2 \<le> s" by linarith
  then have "s * (1 - 1 / 2 ^ 53) \<le> binary64 s" by (rule binary64_bounds)
  moreover have "129 / 128 * (1 - 1 / 2 ^ 53) \<le> s * (1 - 1 / 2 ^ 53)"
    using s by (intro mult_right_mono) simp_all
  ultimately show ?thesis unfolding s_def by linarith
qed

lemma roi_gap:
  assumes "1 / 2 \<le> cb" and "cb \<le> 61 / 100 * ca"
    and "129 / 128 * (1 - 1 / 2 ^ 53) \<le> g"
  shows "binary64 (cb * g) - cb \<le> binary64 (ca * g) - ca"
proof -
  have ca: "1 / 2 \<le> ca" using assms(1,2) by linarith
  have g1: "1 \<le> g"
  proof -
    have "(1::rat) \<le> 129 / 128 * (1 - 1 / 2 ^ 53)" by simp
    then show ?thesis using assms(3) by linarith
  qed
  have "1 / 2 * 1 \<le> cb * g" using assms(1) g1 by (intro mult_mono) simp_all
  then have yb: "1 / 2 \<le> cb * g" by simp
  have "1 / 2 * 1 \<le> ca * g" using ca g1 by (intro mult_mono) simp_all
  then have ya: "1 / 2 \<le> ca * g" by simp
  have tb: "binary64 (cb * g) \<le> cb * g * (1 + 1 / 2 ^ 53)" using yb by (rule binary64_bounds)
  have ta: "ca * g * (1 - 1 / 2 ^ 53) \<le> binary64 (ca * g)" using ya by (rule binary64_bounds)
  have pos: "0 \<le> g * (1 + 1 / 2 ^ 53) - 1" using g1 by (simp add: algebra_simps)
  have num: "(39::rat) / 100
      \<le> 129 / 128 * (1 - 1 / 2 ^ 53) * ((1 - 1 / 2 ^ 53) - 61 / 100 * (1 + 1 / 2 ^ 53))"
    by simp
  have "129 / 128 * (1 - 1 / 2 ^ 53) * ((1 - 1 / 2 ^ 53) - 61 / 100 * (1 + 1 / 2 ^ 53))
      \<le> g * ((1 - 1 / 2 ^ 53) - 61 / 100 * (1 + 1 / 2 ^ 53))"
    using assms(3) by (intro mult_right_mono) simp_all
  then have "39 / 100 \<le> g * ((1 - 1 / 2 ^ 53) - 61 / 100 * (1 + 1 / 2 ^ 53))"
    using num by linarith
  then have key: "61 / 100 * (g * (1 + 1 / 2 ^ 53) - 1) \<le> g * (1 - 1 / 2 ^ 53) - 1"
    by (simp add: algebra_simps)
  have "binary64 (cb * g) - cb \<le> cb * (g * (1 + 1 / 2 ^ 53) - 1)"
    using tb by (simp add: algebra_simps)
  also have "\<dots> \<le> (61 / 100 * ca) * (g * (1 + 1 / 2 ^ 53) - 1)"
    using assms(2) pos by (rule mult_right_mono)
  also have "\<dots> = ca * (61 / 100 * (g * (1 + 1 / 2 ^ 53) - 1))" by simp
  also have "\<dots> \<le> ca * (g * (1 - 1 / 2 ^ 53) - 1)"
    using key ca by (intro mult_left_mono) simp_all
  also have "\<dots> \<le> binary64 (ca * g) - ca" using ta by (simp add: algebra_simps)
  finally show ?thesis .
qed

lemma float_le_PInf: "x \<noteq> NaN \<Longrightarrow> float_le x PInf"
  by (cases x) simp_all

lemma roi_le:
  assumes "1 / 2 \<le> cb" and "cb \<le> 61 / 100 * ca"
    and "binary64 ca = ca" and "binary64 cb = cb" and "\<bar>ca\<bar> < 2 ^ 1024"
    and "0 \<le> p" and "fl (of_int p / 100) = Finite q"
  shows "float_le (float_sub (float_mul (Finite cb) (fl (1 + q))) (Finite cb))
                  (float_sub (float_mul (Finite ca) (fl (1 + q))) (Finite ca))"
proof -
  have ca: "1 / 2 \<le> ca" using assms(1,2) by linarith
  have cb_fin: "\<bar>cb\<bar> < 2 ^ 1024" using assms(1,2,5) by linarith
  have q: "q = binary64 (of_int p / 100)" using assms(7) by (rule fl_eq_FiniteD)
  have "(0::rat) \<le> of_int p / 100" using assms(6) by simp
  then have q0: "0 \<le> q" unfolding q by (rule binary64_nonneg)
  then have s0: "0 \<le> 1 + q" by simp
  from s0 show ?thesis
  proof (cases rule: fl_nonneg_cases)
    case PInf
    then show ?thesis using ca assms(1) by (simp add: float_sub_def signed_inf_def)
  next
    case Finite
    define g where "g = binary64 (1 + q)"
    have g: "fl (1 + q) = Finite g" using Finite(1) by (simp add: g_def)
    have g1: "1 \<le> g" unfolding g_def by (rule binary64_ge_one) (use q0 in simp)
    have ya: "0 \<le> ca * g" and yb: "0 \<le> cb * g" using ca assms(1) g1 by simp_all
    have le: "cb * g \<le> ca * g" using assms(1,2) g1 by (intro mult_right_mono) linarith+
    have diff: "binary64 (cb * g) - cb \<le> binary64 (ca * g) - ca"
    proof (cases "p = 0")
      case True
      then have "q = 0" by (simp add: q binary64_zero)
      then have "g = 1" by (simp add: g_def binary64_one)
      then show ?thesis by (simp add: assms(3,4))
    next
      case False
      then have "1 \<le> p" using assms(6) by linarith
      then have "129 / 128 * (1 - 1 / 2 ^ 53) \<le> g"
        unfolding g_def q by (rule growth_lower)
      with assms(1,2) show ?thesis by (rule roi_gap)
    qed
    from ya show ?thesis
    proof (cases rule: fl_nonneg_cases)
      case PInf
      then have a: "float_sub (float_mul (Finite ca) (fl (1 + q))) (Finite ca) = PInf"
        by (simp add: g float_sub_def)
      have "float_sub (float_mul (Finite cb) (fl (1 + q))) (Finite cb) \<noteq> NaN"
        using yb by (cases rule: fl_nonneg_cases) (simp_all add: g float_sub_def fl_not_NaN)
      then show ?thesis unfolding a by (rule float_le_PInf)
    next
      case Finite
      note ta = this
      have "binary64 (cb * g) \<le> binary64 (ca * g)" using le by (rule binary64_mono)
      moreover have "0 \<le> binary64 (cb * g)" using yb by (rule binary64_nonneg)
      ultimately have "\<bar>binary64 (cb * g)\<bar> < 2 ^ 1024" using ta(3) by linarith
      then have tb: "fl (cb * g) = Finite (binary64 (cb * g))" by (rule fl_Finite)
      have "float_le (fl (binary64 (cb * g) - cb)) (fl (binary64 (ca * g) - ca))"
        using diff by (rule fl_mono)
      then show ?thesis by (simp add: g ta(1) tb float_sub_def)
    qed
  qed
qed

lemma cost_is_rounded:
  "binary64 (binary64 (binary64 (of_int i) * fv)) = binary64 (binary64 (of_int i) * fv)"
  by (rule binary64_idem)

subsection \<open>An input whose traditional cost overflows\<close>

lemma fl_overflow:
  assumes "2 ^ 1024 \<le> y"
  shows "fl y = PInf"
proof -
  have "binary64 (2 powi 1024) = 2 powi 1024" using binary64_repr[of 1 1024] by simp
  moreover have "binary64 (2 powi 1024) \<le> binary64 y"
    by (rule binary64_mono) (use assms in simp)
  ultimately have "2 ^ 1024 \<le> binary64 y" by simp
  then show ?thesis by (rule fl_PInf)
qed

lemma huge_input:
  "calculate_costs_and_roi (14 * 10 ^ 305) 1 ''High'' 100
     = Inr (PInf, Finite (7295172830432661 * 2 ^ 970), NaN, Finite (7295172830432661 * 2 ^ 970))"
proof (rule calculate_eval[OF factor_High, where x = "7014589260031405 * 2 ^ 971"
      and y = "5611671408025124 * 2 ^ 970" and q = 1 and G = "Finite 2"])
  show "fl (rat_of_int (14 * 10 ^ 305 * 100 * 1 + 50000)) = Finite (7014589260031405 * 2 ^ 971)"
    by (rule fl_eqI[where e = 971 and n = 7014589260031405]) simp_all
  show "fl (7014589260031405 * 2 ^ 971 * (5854679515581645 / 4503599627370496)) = PInf"
    by (rule fl_overflow) simp
  show "fl (rat_of_int (14 * 10 ^ 305 * 40 * 1 + 30000)) = Finite (5611671408025124 * 2 ^ 970)"
    by (rule fl_eqI[where e = 970 and n = 5611671408025124]) simp_all
  show "fl (5611671408025124 * 2 ^ 970 * (5854679515581645 / 4503599627370496))
      = Finite (7295172830432661 * 2 ^ 970)"
    by (rule fl_eqI[where e = 970 and n = 7295172830432661]) simp_all
  show "fl (rat_of_int 100 / 100) = Finite 1" by (simp add: fl_one)
  show "fl (1 + 1) = Finite 2" by (simp add: fl_numeral)
  show "float_sub (float_mul PInf (Finite 2)) PInf = NaN"
    by (simp add: float_sub_def signed_inf_def)
  have "fl (7295172830432661 * 2 ^ 970 * 2) = Finite (7295172830432661 * 2 ^ 971)"
    by (rule fl_eqI[where e = 971 and n = 7295172830432661]) simp_all
  moreover have "fl (7295172830432661 * 2 ^ 971 - 7295172830432661 * 2 ^ 970)
      = Finite (7295172830432661 * 2 ^ 970)"
    by (rule fl_eqI[where e = 970 and n = 7295172830432661]) simp_all
  ultimately show "float_sub (float_mul (Finite (7295172830432661 * 2 ^ 970)) (Finite 2))
      (Finite (7295172830432661 * 2 ^ 970)) = Finite (7295172830432661 * 2 ^ 970)"
    by (simp add: float_sub_def)
qed

text \<open>
  Claim C10, as stated, has roiB <= roiA for every input with a positive userCount and
  durationMonths, a tier of the three and a non-negative percentage. With
  \<open>14 * 10^305\<close> users, one month, High and 100 percent, the traditional cost overflows
  to infinity, so roiA, the difference of two infinities, is NaN, and Python's
  \<open>roiB <= roiA\<close> is false.
\<close>

theorem roi_order_counterexample:
  "calculate_costs_and_roi (14 * 10 ^ 305) 1 ''High'' 100
     = Inr (PInf, Finite (7295172830432661 * 2 ^ 970), NaN, Finite (7295172830432661 * 2 ^ 970))
   \<and> \<not> float_le (Finite (7295172830432661 * 2 ^ 970)) NaN"
  using huge_input by simp

text \<open>
  Claim C10, amended: for every input with a positive userCount and durationMonths and a
  non-negative targetRoiPercent with which the estimator returns, the low-code cost is
  strictly less than the traditional cost, and roiB <= roiA whenever the traditional
  cost is not infinite. The comparisons are Python's \<open><\<close> and \<open><=\<close> on the returned
  floats.
\<close>

theorem lowcode_cheaper:
  assumes "0 < users" and "0 < months" and "0 \<le> roi_percentage"
    and "calculate_costs_and_roi users months complexity roi_percentage
           = Inr (costA, costB, roiA, roiB)"
  shows "float_lt costB costA \<and> (costA \<noteq> PInf \<longrightarrow> float_le roiB roiA)"
proof -
  let ?a = "users * 100 * months + 50000" and ?b = "users * 40 * months + 30000"
  from assms(4) obtain fv q where f: "dict_get complexity_factor complexity = Inr (Finite fv)"
    and xa: "fl (of_int ?a) = Finite (binary64 (of_int ?a))"
    and A: "costA = fl (binary64 (of_int ?a) * fv)"
    and B: "costB = fl (binary64 (of_int ?b) * fv)"
    and q: "fl (of_int roi_percentage / 100) = Finite q"
    and RA: "roiA = float_sub (float_mul costA (fl (1 + q))) costA"
    and RB: "roiB = float_sub (float_mul costB (fl (1 + q))) costB"
    by (rule calculate_InrE)
  define ca where "ca = binary64 (binary64 (of_int ?a) * fv)"
  define cb where "cb = binary64 (binary64 (of_int ?b) * fv)"
  have fr: "1 / 2 \<le> fv" "fv \<le> 131 / 100" using factor_range[OF f] by blast+
  have um: "0 \<le> users * months" using assms(1,2) by simp
  have b1: "1 \<le> ?b" using assms(1,2) by (intro base_ge_one) simp_all
  have a1: "1 \<le> ?a" using assms(1,2) by (intro base_ge_one) simp_all
  have ba: "5 * ?b \<le> 3 * ?a" using um by (simp add: algebra_simps)
  have ratio: "cb \<le> 61 / 100 * ca" unfolding ca_def cb_def using b1 ba fr(1) by (rule cost_ratio)
  have cb_half: "1 / 2 \<le> cb" unfolding cb_def using two_roundings(3)[OF b1 fr(1)] .
  have "cb < binary64 (of_int ?a)"
    unfolding cb_def using b1 ba fr by (rule costB_below_convertedA)
  moreover have "binary64 (of_int ?a) < 2 ^ 1024" using converted_base(2)[OF a1 xa] .
  ultimately have "\<bar>cb\<bar> < 2 ^ 1024" using cb_half by linarith
  then have Bf: "costB = Finite cb" unfolding B cb_def by (rule fl_Finite)
  have ya: "0 \<le> binary64 (of_int ?a) * fv"
    using converted_base(1)[OF a1 xa] fr(1) by simp
  have lt: "cb < ca" using ratio cb_half by linarith
  from ya show ?thesis
  proof (cases rule: fl_nonneg_cases)
    case PInf
    then have "costA = PInf" by (simp add: A)
    then show ?thesis by (simp add: Bf)
  next
    case Finite
    then have Af: "costA = Finite ca" by (simp add: A ca_def)
    have ca_fin: "\<bar>ca\<bar> < 2 ^ 1024" using Finite(2,3) by (simp add: ca_def)
    have "float_le roiB roiA"
      unfolding RA RB Af Bf
      using cb_half ratio _ _ ca_fin assms(3) q
      by (rule roi_le) (simp_all add: ca_def cb_def binary64_idem)
    then show ?thesis using lt by (simp add: Af Bf)
  qed
qed

text \<open>The instance of the amended claim C10 at the defaults of the form.\<close>

theorem lowcode_cheaper_witness:
  "(0::int) < 50 \<and> (0::int) < 12 \<and> (0::int) \<le> 100
   \<and> calculate_costs_and_roi 50 12 ''Medium'' 100
       = Inr (Finite 110000, Finite 54000, Finite 110000, Finite 54000)
   \<and> float_lt (Finite 54000) (Finite 110000) \<and> Finite 110000 \<noteq> PInf
   \<and> float_le (Finite 54000) (Finite 110000)"
  using lowcode_cheaper[OF _ _ _ default_input] default_input by simp

section \<open>The ROI figures against the simplified formula\<close>

subsection \<open>The error of four roundings\<close>

lemma binary64_bounds_small:
  assumes "1 / 1024 \<le> y"
  shows "y * (1 - 1 / 2 ^ 53) \<le> binary64 y" and "binary64 y \<le> y * (1 + 1 / 2 ^ 53)"
proof -
  have "(2::rat) powi (- 1022) \<le> 2 powi (- 10)" by (rule powi_mono) simp
  then have "2 powi (- 1022) \<le> \<bar>y\<bar>" using assms by simp
  then have "\<bar>binary64 y - y\<bar> \<le> \<bar>y\<bar> / 2 ^ 53" by (rule binary64_rel_err)
  moreover have "\<bar>y\<bar> = y" using assms by simp
  ultimately have e: "\<bar>binary64 y - y\<bar> \<le> y / 2 ^ 53" by simp
  have 1: "y * (1 - 1 / 2 ^ 53) = y - y / 2 ^ 53" by (simp add: algebra_simps)
  have 2: "y * (1 + 1 / 2 ^ 53) = y + y / 2 ^ 53" by (simp add: algebra_simps)
  show "y * (1 - 1 / 2 ^ 53) \<le> binary64 y" unfolding 1 using e by linarith
  show "binary64 y \<le> y * (1 + 1 / 2 ^ 53)" unfolding 2 using e by linarith
qed

lemma roi_rel_error:
  fixes c P :: rat
  assumes c: "1 / 2 \<le> c" and P: "1 / 100 \<le> P"
  defines "q \<equiv> binary64 P"
  defines "g \<equiv> binary64 (1 + q)"
  defines "t \<equiv> binary64 (c * g)"
  defines "r \<equiv> binary64 (t - c)"
  shows "\<bar>r - c * P\<bar> \<le> c * P / 10 ^ 9"
proof -
  define U :: rat where "U = 1 + 1 / 2 ^ 53"
  define L :: rat where "L = 1 - 1 / 2 ^ 53"
  have U: "1 \<le> U" and L: "0 \<le> L" "L \<le> 1" by (simp_all add: U_def L_def)
  have c0: "0 \<le> c" using c by linarith
  have P0: "0 \<le> P" using P by linarith
  have "1 / 1024 \<le> P" using P by linarith
  then have ql: "P * L \<le> q" and qu: "q \<le> P * U"
    unfolding q_def L_def U_def by (rule binary64_bounds_small)+
  have q0: "0 \<le> q" using ql P0 L by (meson mult_nonneg_nonneg order_trans)
  have s: "1 / 1024 \<le> 1 + q" using q0 by linarith
  have gl: "(1 + q) * L \<le> g" and gu: "g \<le> (1 + q) * U"
    unfolding g_def L_def U_def using s by (rule binary64_bounds_small)+
  have gl': "(1 + P * L) * L \<le> g"
  proof -
    have "(1 + P * L) * L \<le> (1 + q) * L" using ql L by (intro mult_right_mono) simp_all
    then show ?thesis using gl by linarith
  qed
  have gu': "g \<le> (1 + P * U) * U"
  proof -
    have "(1 + q) * U \<le> (1 + P * U) * U" using qu U by (intro mult_right_mono) simp_all
    then show ?thesis using gu by linarith
  qed
  have numg: "129 / 128 \<le> (1 + 1 / 100 * L) * L" by (simp add: L_def)
  have "(1 + 1 / 100 * L) * L \<le> (1 + P * L) * L"
    using P L by (intro mult_right_mono add_left_mono) simp_all
  then have g1: "129 / 128 \<le> g" using numg gl' by linarith
  have "1 / 2 * 1 \<le> c * g" using c g1 by (intro mult_mono) simp_all
  then have "1 / 1024 \<le> c * g" by simp
  then have tl: "c * g * L \<le> t" and tu: "t \<le> c * g * U"
    unfolding t_def L_def U_def by (rule binary64_bounds_small)+
  have tl': "c * ((1 + P * L) * L * L) \<le> t"
  proof -
    have "c * ((1 + P * L) * L * L) = c * ((1 + P * L) * L) * L" by simp
    also have "\<dots> \<le> c * g * L" using gl' c0 L by (intro mult_right_mono mult_left_mono) simp_all
    finally show ?thesis using tl by linarith
  qed
  have tu': "t \<le> c * ((1 + P * U) * U * U)"
  proof -
    have "c * g * U \<le> c * ((1 + P * U) * U) * U"
      using gu' c0 U by (intro mult_right_mono mult_left_mono) simp_all
    then show ?thesis using tu by (simp add: mult.assoc)
  qed
  define d where "d = t - c"
  have dl: "c * ((1 + P * L) * L * L - 1) \<le> d" using tl' by (simp add: d_def algebra_simps)
  have du: "d \<le> c * ((1 + P * U) * U * U - 1)" using tu' by (simp add: d_def algebra_simps)
  have numd: "1 / 256 \<le> (1 + 1 / 100 * L) * L * L - 1" by (simp add: L_def)
  have "(1 + 1 / 100 * L) * L * L \<le> (1 + P * L) * L * L"
    using P L by (intro mult_right_mono add_left_mono) simp_all
  then have inner: "1 / 256 \<le> (1 + P * L) * L * L - 1" using numd by linarith
  have "1 / 2 * (1 / 256) \<le> c * ((1 + P * L) * L * L - 1)"
    using c inner by (intro mult_mono) simp_all
  then have d_small: "1 / 1024 \<le> d" using dl by simp
  then have d0: "0 \<le> d" by linarith
  have rl: "d * L \<le> r" and ru: "r \<le> d * U"
    unfolding r_def d_def[symmetric] L_def U_def using d_small by (rule binary64_bounds_small)+
  have upper: "r \<le> c * P * (1 + 1 / 10 ^ 9)"
  proof -
    have "r \<le> c * ((1 + P * U) * U * U - 1) * U"
      using ru du U by (meson mult_right_mono order_trans zero_le_one)
    also have "\<dots> = c * (((1 + P * U) * U * U - 1) * U)" by simp
    also have "\<dots> \<le> c * (P * (1 + 1 / 10 ^ 9))"
    proof (rule mult_left_mono[OF _ c0])
      have "((1 + P * U) * U * U - 1) * U = (U * U - 1) * U + P * (U * U * U * U)"
        by (simp add: algebra_simps)
      moreover have "(U * U - 1) * U \<le> 1 / 100 * (1 + 1 / 10 ^ 9 - U * U * U * U)"
        by (simp add: U_def)
      moreover have "1 / 100 * (1 + 1 / 10 ^ 9 - U * U * U * U) \<le> P * (1 + 1 / 10 ^ 9 - U * U * U * U)"
        using P by (intro mult_right_mono) (simp_all add: U_def)
      ultimately show "((1 + P * U) * U * U - 1) * U \<le> P * (1 + 1 / 10 ^ 9)"
        by (simp add: algebra_simps)
    qed
    finally show ?thesis by (simp add: mult.assoc)
  qed
  have lower: "c * P * (1 - 1 / 10 ^ 9) \<le> r"
  proof -
    have "c * (P * (1 - 1 / 10 ^ 9)) \<le> c * (((1 + P * L) * L * L - 1) * L)"
    proof (rule mult_left_mono[OF _ c0])
      have "((1 + P * L) * L * L - 1) * L = P * (L * L * L * L) - (1 - L * L) * L"
        by (simp add: algebra_simps)
      moreover have "(1 - L * L) * L \<le> 1 / 100 * (L * L * L * L - 1 + 1 / 10 ^ 9)"
        by (simp add: L_def)
      moreover have "1 / 100 * (L * L * L * L - 1 + 1 / 10 ^ 9) \<le> P * (L * L * L * L - 1 + 1 / 10 ^ 9)"
        using P by (intro mult_right_mono) (simp_all add: L_def)
      ultimately show "P * (1 - 1 / 10 ^ 9) \<le> ((1 + P * L) * L * L - 1) * L"
        by (simp add: algebra_simps)
    qed
    also have "\<dots> = c * ((1 + P * L) * L * L - 1) * L" by simp
    also have "\<dots> \<le> d * L" using dl L by (intro mult_right_mono) simp_all
    also have "\<dots> \<le> r" by (rule rl)
    finally show ?thesis by (simp add: mult.assoc)
  qed
  define w where "w = c * P"
  have "r \<le> w * (1 + 1 / 10 ^ 9)" and "w * (1 - 1 / 10 ^ 9) \<le> r"
    using upper lower by (simp_all only: w_def)
  then have "r - w \<le> w / 10 ^ 9" and "- (w / 10 ^ 9) \<le> r - w"
    by (simp_all add: algebra_simps)
  then have "\<bar>r - w\<bar> \<le> w / 10 ^ 9" by (intro abs_leI) linarith+
  then show ?thesis by (simp only: w_def)
qed

lemma roi_alternate_Finite:
  assumes "fl (of_int p / 100) = Finite q"
  shows "roi_alternate cost p = Inr (float_sub (float_mul cost (fl (1 + q))) cost)"
  using assms by (simp add: roi_alternate_def int_truediv_def int_add_float_one)

lemma roi_FiniteD:
  assumes "1 / 2 \<le> c" and "0 \<le> q"
    and "float_sub (float_mul (Finite c) (fl (1 + q))) (Finite c) = Finite r"
  shows "r = binary64 (binary64 (c * binary64 (1 + q)) - c)"
proof -
  have s0: "0 \<le> 1 + q" using assms(2) by simp
  from s0 show ?thesis
  proof (cases rule: fl_nonneg_cases)
    case PInf
    then show ?thesis using assms(1,3) by (simp add: float_sub_def signed_inf_def)
  next
    case g: Finite
    have "0 \<le> c * binary64 (1 + q)" using assms(1) g(2) by simp
    then show ?thesis
    proof (cases rule: fl_nonneg_cases)
      case PInf
      then show ?thesis using assms(3) g(1) by (simp add: float_sub_def)
    next
      case Finite
      then have "fl (binary64 (c * binary64 (1 + q)) - c) = Finite r"
        using assms(3) g(1) by (simp add: float_sub_def)
      then show ?thesis by (rule fl_eq_FiniteD)
    qed
  qed
qed

lemma roi_tolerance_one:
  assumes "1 / 2 \<le> c" and "binary64 c = c" and "0 \<le> p"
    and "fl (of_int p / 100) = Finite q"
    and "float_sub (float_mul (Finite c) (fl (1 + q))) (Finite c) = Finite r"
  shows "\<bar>r - c * (of_int p / 100)\<bar> \<le> c * (of_int p / 100) / 10 ^ 9"
proof -
  have q: "q = binary64 (of_int p / 100)" using assms(4) by (rule fl_eq_FiniteD)
  have "(0::rat) \<le> of_int p / 100" using assms(3) by simp
  then have q0: "0 \<le> q" unfolding q by (rule binary64_nonneg)
  have r: "r = binary64 (binary64 (c * binary64 (1 + q)) - c)"
    using assms(1) q0 assms(5) by (rule roi_FiniteD)
  show ?thesis
  proof (cases "p = 0")
    case True
    then have "q = 0" by (simp add: q binary64_zero)
    then have "r = 0" by (simp add: r binary64_one assms(2) binary64_zero)
    then show ?thesis using True by simp
  next
    case False
    then have "1 \<le> p" using assms(3) by linarith
    then have "(1::rat) \<le> of_int p" by simp
    then have P: "(1::rat) / 100 \<le> of_int p / 100" by simp
    show ?thesis unfolding r q using assms(1) P by (rule roi_rel_error)
  qed
qed

subsection \<open>Ten percent of the default costs\<close>

lemma ten_percent:
  "calculate_costs_and_roi 50 12 ''Medium'' 10
     = Inr (Finite 110000, Finite 54000, Finite (755914244096001 / 68719476736),
            Finite (742170348748801 / 137438953472))"
proof (rule calculate_eval[OF factor_Medium, where x = 110000 and y = 54000
      and q = "3602879701896397 / 36028797018963968"
      and G = "Finite (2476979795053773 / 2251799813685248)"])
  show "fl (rat_of_int (50 * 100 * 12 + 50000)) = Finite 110000" by (simp add: fl_numeral)
  show "fl (110000 * 1) = Finite 110000" by (simp add: fl_numeral)
  show "fl (rat_of_int (50 * 40 * 12 + 30000)) = Finite 54000" by (simp add: fl_numeral)
  show "fl (54000 * 1) = Finite 54000" by (simp add: fl_numeral)
  show "fl (rat_of_int 10 / 100) = Finite (3602879701896397 / 36028797018963968)"
    by (rule fl_eqI[where e = "- 56" and n = 7205759403792794]) simp_all
  show "fl (1 + 3602879701896397 / 36028797018963968)
      = Finite (2476979795053773 / 2251799813685248)"
    by (rule fl_eqI[where e = "- 52" and n = 4953959590107546]) simp_all
  have "fl (110000 * (2476979795053773 / 2251799813685248))
      = Finite (8315056685056001 / 68719476736)"
    by (rule fl_eqI[where e = "- 36" and n = 8315056685056001]) simp_all
  moreover have "fl (8315056685056001 / 68719476736 - 110000)
      = Finite (755914244096001 / 68719476736)"
    by (rule fl_eqI[where e = "- 39" and n = 6047313952768008]) simp_all
  ultimately show "float_sub (float_mul (Finite 110000) (Finite (2476979795053773 / 2251799813685248)))
      (Finite 110000) = Finite (755914244096001 / 68719476736)"
    by (simp add: float_sub_def)
  have "fl (54000 * (2476979795053773 / 2251799813685248))
      = Finite (8163873836236801 / 137438953472)"
    by (rule fl_eqI[where e = "- 37" and n = 8163873836236801]) simp_all
  moreover have "fl (8163873836236801 / 137438953472 - 54000)
      = Finite (742170348748801 / 137438953472)"
    by (rule fl_eqI[where e = "- 40" and n = 5937362789990408]) simp_all
  ultimately show "float_sub (float_mul (Finite 54000) (Finite (2476979795053773 / 2251799813685248)))
      (Finite 54000) = Finite (742170348748801 / 137438953472)"
    by (simp add: float_sub_def)
qed

lemma ten_percent_simplified:
  "roi_simplified (Finite 110000) 10 = Inr (Finite 11000)"
  "roi_simplified (Finite 54000) 10 = Inr (Finite 5400)"
proof -
  have q: "fl (rat_of_int 10 / 100) = Finite (3602879701896397 / 36028797018963968)"
    by (rule fl_eqI[where e = "- 56" and n = 7205759403792794]) simp_all
  have a: "fl (110000 * (3602879701896397 / 36028797018963968)) = Finite 11000"
    by (rule fl_eqI[where e = "- 39" and n = 6047313952768000]) simp_all
  have b: "fl (54000 * (3602879701896397 / 36028797018963968)) = Finite 5400"
    by (rule fl_eqI[where e = "- 40" and n = 5937362789990400]) simp_all
  show "roi_simplified (Finite 110000) 10 = Inr (Finite 11000)"
    using q a by (simp add: roi_simplified_def int_truediv_def)
  show "roi_simplified (Finite 54000) 10 = Inr (Finite 5400)"
    using q b by (simp add: roi_simplified_def int_truediv_def)
qed

text \<open>
  Claim C2, as stated, has the implementation compute the ROI by the simplified formula
  \<open>cost * p\<close> and not by \<open>cost * (1 + p) - cost\<close>. Lines 394 and 395 compute
  \<open>cost * (1 + roi_percentage/100) - cost\<close>, and the two paths round differently: with 50
  users, 12 months, Medium and 10 percent the estimator returns
  roiA = 11000.000000000015 and roiB = 5400.000000000007, where the simplified formula
  gives 11000.0 and 5400.0.
\<close>

theorem simplified_roi_counterexample:
  "calculate_costs_and_roi 50 12 ''Medium'' 10
     = Inr (Finite 110000, Finite 54000, Finite (755914244096001 / 68719476736),
            Finite (742170348748801 / 137438953472))
   \<and> roi_simplified (Finite 110000) 10 = Inr (Finite 11000)
   \<and> roi_simplified (Finite 54000) 10 = Inr (Finite 5400)
   \<and> Finite (755914244096001 / 68719476736) \<noteq> Finite 11000
   \<and> Finite (742170348748801 / 137438953472) \<noteq> Finite 5400"
  using ten_percent ten_percent_simplified by simp

text \<open>
  Claim C2, amended: for every input with a positive integer userCount and
  durationMonths and an integer targetRoiPercent that is not negative (the slider of the
  form passes an integer), for which the estimator returns four finite figures, roiA and
  roiB are computed by the path \<open>cost * (1 + targetRoiPercent/100) - cost\<close> in float
  arithmetic, and each differs from the exact product \<open>cost * targetRoiPercent/100\<close> by
  at most \<open>10^-9\<close> of that product. The bound rests on the percentage being an integer,
  so 0 or at least 1: nothing is stated here for a fractional percentage.
\<close>

theorem roi_tolerance:
  assumes "0 < users" and "0 < months" and "0 \<le> roi_percentage"
    and "calculate_costs_and_roi users months complexity roi_percentage
           = Inr (Finite costA, Finite costB, Finite roiA, Finite roiB)"
  shows "roi_alternate (Finite costA) roi_percentage = Inr (Finite roiA)
    \<and> roi_alternate (Finite costB) roi_percentage = Inr (Finite roiB)
    \<and> \<bar>roiA - costA * (of_int roi_percentage / 100)\<bar>
        \<le> costA * (of_int roi_percentage / 100) / 10 ^ 9
    \<and> \<bar>roiB - costB * (of_int roi_percentage / 100)\<bar>
        \<le> costB * (of_int roi_percentage / 100) / 10 ^ 9"
proof -
  let ?a = "users * 100 * months + 50000" and ?b = "users * 40 * months + 30000"
  from assms(4) obtain fv q where f: "dict_get complexity_factor complexity = Inr (Finite fv)"
    and A: "Finite costA = fl (binary64 (of_int ?a) * fv)"
    and B: "Finite costB = fl (binary64 (of_int ?b) * fv)"
    and q: "fl (of_int roi_percentage / 100) = Finite q"
    and RA: "Finite roiA = float_sub (float_mul (Finite costA) (fl (1 + q))) (Finite costA)"
    and RB: "Finite roiB = float_sub (float_mul (Finite costB) (fl (1 + q))) (Finite costB)"
    by (rule calculate_InrE)
  have fr: "1 / 2 \<le> fv" using factor_range[OF f] by blast
  have b1: "1 \<le> ?b" using assms(1,2) by (intro base_ge_one) simp_all
  have a1: "1 \<le> ?a" using assms(1,2) by (intro base_ge_one) simp_all
  have ca: "costA = binary64 (binary64 (of_int ?a) * fv)" using A[symmetric] by (rule fl_eq_FiniteD)
  have cb: "costB = binary64 (binary64 (of_int ?b) * fv)" using B[symmetric] by (rule fl_eq_FiniteD)
  have a_half: "1 / 2 \<le> costA" unfolding ca using two_roundings(3)[OF a1 fr] .
  have b_half: "1 / 2 \<le> costB" unfolding cb using two_roundings(3)[OF b1 fr] .
  have a_rnd: "binary64 costA = costA" unfolding ca by (rule binary64_idem)
  have b_rnd: "binary64 costB = costB" unfolding cb by (rule binary64_idem)
  have 1: "roi_alternate (Finite costA) roi_percentage = Inr (Finite roiA)"
    using roi_alternate_Finite[OF q] RA by simp
  have 2: "roi_alternate (Finite costB) roi_percentage = Inr (Finite roiB)"
    using roi_alternate_Finite[OF q] RB by simp
  have 3: "\<bar>roiA - costA * (of_int roi_percentage / 100)\<bar>
        \<le> costA * (of_int roi_percentage / 100) / 10 ^ 9"
    using a_half a_rnd assms(3) q RA[symmetric] by (rule roi_tolerance_one)
  have 4: "\<bar>roiB - costB * (of_int roi_percentage / 100)\<bar>
        \<le> costB * (of_int roi_percentage / 100) / 10 ^ 9"
    using b_half b_rnd assms(3) q RB[symmetric] by (rule roi_tolerance_one)
  from 1 2 3 4 show ?thesis by blast
qed

text \<open>The instance of the amended claim C2 at 50 users, 12 months, Medium and 10 percent.\<close>

theorem roi_tolerance_witness:
  "(0::int) < 50 \<and> (0::int) < 12 \<and> (0::int) \<le> 10
   \<and> calculate_costs_and_roi 50 12 ''Medium'' 10
       = Inr (Finite 110000, Finite 54000, Finite (755914244096001 / 68719476736),
              Finite (742170348748801 / 137438953472))
   \<and> roi_alternate (Finite 110000) 10 = Inr (Finite (755914244096001 / 68719476736))
   \<and> roi_alternate (Finite 54000) 10 = Inr (Finite (742170348748801 / 137438953472))
   \<and> \<bar>755914244096001 / 68719476736 - 110000 * (of_int 10 / 100)\<bar>
       \<le> (110000 * (of_int 10 / 100) / 10 ^ 9 :: rat)
   \<and> \<bar>742170348748801 / 137438953472 - 54000 * (of_int 10 / 100)\<bar>
       \<le> (54000 * (of_int 10 / 100) / 10 ^ 9 :: rat)"
  using roi_tolerance[OF _ _ _ ten_percent] ten_percent by simp

section \<open>The results and the failures of the estimator\<close>

subsection \<open>The conversions and the result\<close>

lemma float_of_int_overflow:
  assumes "2 ^ 1024 \<le> i"
  shows "float_of_int i = Inl OverflowError"
proof -
  have "(of_int (2 ^ 1024) :: rat) \<le> of_int i" using assms by (simp only: of_int_le_iff)
  then have "(2::rat) ^ 1024 \<le> of_int i" by simp
  then have "fl (of_int i) = PInf" by (rule fl_overflow)
  then show ?thesis by (simp add: float_of_int_def)
qed

lemma float_of_int_fits:
  assumes "\<bar>i\<bar> \<le> 2 ^ 1023"
  shows "float_of_int i = Inr (Finite (binary64 (of_int i)))"
  using float_of_int_bounded[OF assms] by (simp add: float_of_int_def)

lemma float_of_int_error: "float_of_int i = Inl e \<Longrightarrow> e = OverflowError"
  by (cases "fl (of_int i)") (simp_all add: float_of_int_def)

lemma int_truediv_100_error: "int_truediv p 100 = Inl e \<Longrightarrow> e = OverflowError"
  by (cases "fl (of_int p / 100)") (simp_all add: int_truediv_def)

lemma float_of_int_Inr: "float_of_int i = Inr x \<Longrightarrow> fl (of_int i) = x"
  by (cases "fl (of_int i)") (simp_all add: float_of_int_def)

lemma int_truediv_100_Finite: "int_truediv p 100 = Inr q \<Longrightarrow> \<exists>v. q = Finite v"
  by (cases "fl (of_int p / 100)") (auto simp add: int_truediv_def)

lemma int_add_float_one_any: "int_add_float 1 q = Inr (float_add (Finite 1) q)"
  by (simp add: int_add_float_def float_of_int_def fl_one)

lemma calculate_returns:
  assumes "dict_get complexity_factor c = Inr f"
    and "float_of_int (u * 100 * m + 50000) = Inr xa"
    and "float_of_int (u * 40 * m + 30000) = Inr xb"
    and "int_truediv p 100 = Inr q"
  shows "calculate_costs_and_roi u m c p
     = Inr (float_mul xa f, float_mul xb f,
            float_sub (float_mul (float_mul xa f) (float_add (Finite 1) q)) (float_mul xa f),
            float_sub (float_mul (float_mul xb f) (float_add (Finite 1) q)) (float_mul xb f))"
  unfolding calculate_unfold[OF assms(1)] int_mul_float_def assms(2,3,4)
  by (simp add: int_add_float_one_any)

lemma calculate_overflow_iff:
  assumes "dict_get complexity_factor c = Inr f"
  shows "calculate_costs_and_roi u m c p = Inl OverflowError
    \<longleftrightarrow> float_of_int (u * 100 * m + 50000) = Inl OverflowError
      \<or> float_of_int (u * 40 * m + 30000) = Inl OverflowError
      \<or> int_truediv p 100 = Inl OverflowError"
proof (cases "float_of_int (u * 100 * m + 50000)")
  case (Inl e)
  then have "e = OverflowError" by (rule float_of_int_error)
  then show ?thesis using Inl by (simp add: calculate_unfold[OF assms] int_mul_float_def)
next
  case a: (Inr xa)
  show ?thesis
  proof (cases "float_of_int (u * 40 * m + 30000)")
    case (Inl e)
    then have "e = OverflowError" by (rule float_of_int_error)
    then show ?thesis using Inl a by (simp add: calculate_unfold[OF assms] int_mul_float_def)
  next
    case b: (Inr xb)
    show ?thesis
    proof (cases "int_truediv p 100")
      case (Inl e)
      then have "e = OverflowError" by (rule int_truediv_100_error)
      then show ?thesis using Inl a b by (simp add: calculate_unfold[OF assms] int_mul_float_def)
    next
      case (Inr q)
      then show ?thesis using calculate_returns[OF assms a b Inr] a b by simp
    qed
  qed
qed

subsection \<open>The cost formulas\<close>

lemma huge_users:
  "calculate_costs_and_roi (10 ^ 400) 1 ''Medium'' 0 = Inl OverflowError"
proof -
  have "float_of_int (10 ^ 400 * 100 * 1 + 50000) = Inl OverflowError"
    by (rule float_of_int_overflow) simp
  then show ?thesis
    using calculate_overflow_iff[OF factor_Medium, of "10 ^ 400" 1 0] by blast
qed

text \<open>
  Claim C1, as the specification states it, has the estimator compute the two costs for
  every input whose tier is Low, Medium or High. At userCount \<open>10^400\<close>, one month, Medium
  and 0 percent the integer cost base is too large for a float, and the product with the
  factor raises \<open>OverflowError\<close>: no cost is computed.
\<close>

theorem huge_users_counterexample:
  "complexityFactor ''Medium'' = Some 1
   \<and> calculate_costs_and_roi (10 ^ 400) 1 ''Medium'' 0 = Inl OverflowError"
  using huge_users by (simp add: complexityFactor_def)

text \<open>
  Claim C1, amended: let the tier be Low, Medium or High and \<open>f\<close> its factor 0.8, 1.0 or
  1.3. When the two integer cost bases and targetRoiPercent are at most \<open>2^1023\<close> in
  magnitude, the estimator returns, with costA the float product of the base
  \<open>userCount * 100 * durationMonths + 50000\<close>, converted to a float, and the float of \<open>f\<close>,
  and costB the float product of \<open>userCount * 40 * durationMonths + 30000\<close> and the float
  of \<open>f\<close>. And whenever the estimator returns, on any input, its two costs are these
  products.
\<close>

theorem estimator_cost_formulas:
  assumes "complexityFactor complexity = Some f"
  shows "(\<bar>users * 100 * months + 50000\<bar> \<le> 2 ^ 1023
          \<and> \<bar>users * 40 * months + 30000\<bar> \<le> 2 ^ 1023
          \<and> \<bar>roi_percentage\<bar> \<le> 2 ^ 1023
          \<longrightarrow> (\<exists>roiA roiB.
                calculate_costs_and_roi users months complexity roi_percentage
                  = Inr (float_mul (Finite (binary64 (of_int (users * 100 * months + 50000)))) (fl f),
                         float_mul (Finite (binary64 (of_int (users * 40 * months + 30000)))) (fl f),
                         roiA, roiB)))
    \<and> (\<forall>costA costB roiA roiB.
          calculate_costs_and_roi users months complexity roi_percentage
            = Inr (costA, costB, roiA, roiB)
          \<longrightarrow> costA = float_mul (Finite (binary64 (of_int (users * 100 * months + 50000)))) (fl f)
              \<and> costB = float_mul (Finite (binary64 (of_int (users * 40 * months + 30000)))) (fl f))"
proof (intro conjI impI allI)
  have d: "dict_get complexity_factor complexity = Inr (fl f)"
    using assms by (rule spec_factor)
  {
    assume b: "\<bar>users * 100 * months + 50000\<bar> \<le> 2 ^ 1023
          \<and> \<bar>users * 40 * months + 30000\<bar> \<le> 2 ^ 1023
          \<and> \<bar>roi_percentage\<bar> \<le> 2 ^ 1023"
    have xa: "float_of_int (users * 100 * months + 50000)
        = Inr (Finite (binary64 (of_int (users * 100 * months + 50000))))"
      using b by (intro float_of_int_fits) blast
    have xb: "float_of_int (users * 40 * months + 30000)
        = Inr (Finite (binary64 (of_int (users * 40 * months + 30000))))"
      using b by (intro float_of_int_fits) blast
    have q: "int_truediv roi_percentage 100 = Inr (Finite (binary64 (of_int roi_percentage / 100)))"
      using b by (intro int_truediv_bounded) blast
    show "\<exists>roiA roiB.
        calculate_costs_and_roi users months complexity roi_percentage
          = Inr (float_mul (Finite (binary64 (of_int (users * 100 * months + 50000)))) (fl f),
                 float_mul (Finite (binary64 (of_int (users * 40 * months + 30000)))) (fl f),
                 roiA, roiB)"
      using calculate_returns[OF d xa xb q] by blast
  }
  fix costA costB roiA roiB
  assume r: "calculate_costs_and_roi users months complexity roi_percentage
      = Inr (costA, costB, roiA, roiB)"
  from r obtain fv q where fv: "dict_get complexity_factor complexity = Inr (Finite fv)"
    and A: "costA = fl (binary64 (of_int (users * 100 * months + 50000)) * fv)"
    and B: "costB = fl (binary64 (of_int (users * 40 * months + 30000)) * fv)"
    by (rule calculate_InrE)
  have "fl f = Finite fv" using d fv by simp
  then show "costA = float_mul (Finite (binary64 (of_int (users * 100 * months + 50000)))) (fl f)"
    and "costB = float_mul (Finite (binary64 (of_int (users * 40 * months + 30000)))) (fl f)"
    using A B by simp_all
qed

text \<open>
  The instance of the amended claim C1 at 1000 users, 36 months, High and 200 percent,
  where the two products are 4745000.0 and 1911000.0.
\<close>

theorem estimator_cost_formulas_witness:
  "complexityFactor ''High'' = Some (13 / 10)
   \<and> \<bar>1000 * 100 * 36 + 50000 :: int\<bar> \<le> 2 ^ 1023
   \<and> \<bar>1000 * 40 * 36 + 30000 :: int\<bar> \<le> 2 ^ 1023
   \<and> \<bar>200 :: int\<bar> \<le> 2 ^ 1023
   \<and> (\<exists>roiA roiB.
        calculate_costs_and_roi 1000 36 ''High'' 200
          = Inr (float_mul (Finite (binary64 (of_int (1000 * 100 * 36 + 50000)))) (fl (13 / 10)),
                 float_mul (Finite (binary64 (of_int (1000 * 40 * 36 + 30000)))) (fl (13 / 10)),
                 roiA, roiB))
   \<and> Finite 4745000 = float_mul (Finite (binary64 (of_int (1000 * 100 * 36 + 50000)))) (fl (13 / 10))
   \<and> Finite 1911000 = float_mul (Finite (binary64 (of_int (1000 * 40 * 36 + 30000)))) (fl (13 / 10))"
proof -
  have h: "complexityFactor ''High'' = Some (13 / 10)"
    unfolding complexityFactor_def by simp
  have b: "\<bar>1000 * 100 * 36 + 50000 :: int\<bar> \<le> 2 ^ 1023
      \<and> \<bar>1000 * 40 * 36 + 30000 :: int\<bar> \<le> 2 ^ 1023 \<and> \<bar>200 :: int\<bar> \<le> 2 ^ 1023"
    by simp
  note t = estimator_cost_formulas[OF h, of 1000 36 200]
  from t b have 1: "\<exists>roiA roiB.
        calculate_costs_and_roi 1000 36 ''High'' 200
          = Inr (float_mul (Finite (binary64 (of_int (1000 * 100 * 36 + 50000)))) (fl (13 / 10)),
                 float_mul (Finite (binary64 (of_int (1000 * 40 * 36 + 30000)))) (fl (13 / 10)),
                 roiA, roiB)"
    by blast
  from t boundary_high have 2:
    "Finite 4745000 = float_mul (Finite (binary64 (of_int (1000 * 100 * 36 + 50000)))) (fl (13 / 10))
     \<and> Finite 1911000 = float_mul (Finite (binary64 (of_int (1000 * 40 * 36 + 30000)))) (fl (13 / 10))"
    by blast
  from h b 1 2 show ?thesis by blast
qed

subsection \<open>Every failure and every result\<close>

lemma negative_input:
  "calculate_costs_and_roi (- 5) 0 ''Low'' (- 50)
     = Inr (Finite 40000, Finite 24000, Finite (- 20000), Finite (- 12000))"
proof (rule calculate_eval[OF factor_Low, where x = 50000 and y = 30000 and q = "- (1 / 2)"
      and G = "Finite (1 / 2)"])
  show "fl (rat_of_int (- 5 * 100 * 0 + 50000)) = Finite 50000" by (simp add: fl_numeral)
  show "fl (50000 * (3602879701896397 / 4503599627370496)) = Finite 40000"
    by (rule fl_eqI[where e = "- 37" and n = 5497558138880000]) simp_all
  show "fl (rat_of_int (- 5 * 40 * 0 + 30000)) = Finite 30000" by (simp add: fl_numeral)
  show "fl (30000 * (3602879701896397 / 4503599627370496)) = Finite 24000"
    by (rule fl_eqI[where e = "- 38" and n = 6597069766656000]) simp_all
  show "fl (rat_of_int (- 50) / 100) = Finite (- (1 / 2))"
    by (rule fl_eqI[where e = "- 53" and n = "- 4503599627370496"]) simp_all
  show "fl (1 + - (1 / 2)) = Finite (1 / 2)"
    by (rule fl_eqI[where e = "- 53" and n = 4503599627370496]) simp_all
  have "fl (40000 * (1 / 2)) = Finite 20000" by (simp add: fl_numeral)
  moreover have "fl (20000 - 40000) = Finite (- 20000)"
    using fl_of_int[of "- 20000"] by simp
  ultimately show "float_sub (float_mul (Finite 40000) (Finite (1 / 2))) (Finite 40000)
      = Finite (- 20000)"
    by (simp add: float_sub_def)
  have "fl (24000 * (1 / 2)) = Finite 12000" by (simp add: fl_numeral)
  moreover have "fl (12000 - 24000) = Finite (- 12000)"
    using fl_of_int[of "- 12000"] by simp
  ultimately show "float_sub (float_mul (Finite 24000) (Finite (1 / 2))) (Finite 24000)
      = Finite (- 12000)"
    by (simp add: float_sub_def)
qed

lemma huge_percentage:
  "calculate_costs_and_roi 50 12 ''Medium'' (10 ^ 309) = Inr (Finite 110000, Finite 54000, PInf, PInf)"
proof (rule calculate_eval[OF factor_Medium, where x = 110000 and y = 54000
      and q = "8016673440035891 * 2 ^ 967" and G = "Finite (8016673440035891 * 2 ^ 967)"])
  show "fl (rat_of_int (50 * 100 * 12 + 50000)) = Finite 110000" by (simp add: fl_numeral)
  show "fl (110000 * 1) = Finite 110000" by (simp add: fl_numeral)
  show "fl (rat_of_int (50 * 40 * 12 + 30000)) = Finite 54000" by (simp add: fl_numeral)
  show "fl (54000 * 1) = Finite 54000" by (simp add: fl_numeral)
  show "fl (rat_of_int (10 ^ 309) / 100) = Finite (8016673440035891 * 2 ^ 967)"
    by (rule fl_eqI[where e = 967 and n = 8016673440035891]) simp_all
  show "fl (1 + 8016673440035891 * 2 ^ 967) = Finite (8016673440035891 * 2 ^ 967)"
    by (rule fl_eqI[where e = 967 and n = 8016673440035891]) simp_all
  have "fl (110000 * (8016673440035891 * 2 ^ 967)) = PInf" by (rule fl_overflow) simp
  then show "float_sub (float_mul (Finite 110000) (Finite (8016673440035891 * 2 ^ 967)))
      (Finite 110000) = PInf"
    by (simp add: float_sub_def)
  have "fl (54000 * (8016673440035891 * 2 ^ 967)) = PInf" by (rule fl_overflow) simp
  then show "float_sub (float_mul (Finite 54000) (Finite (8016673440035891 * 2 ^ 967)))
      (Finite 54000) = PInf"
    by (simp add: float_sub_def)
qed

lemma tier_spec_factor:
  assumes "complexity \<in> {''Low'', ''Medium'', ''High''}"
  shows "\<exists>f. complexityFactor complexity = Some f"
proof -
  from assms consider "complexity = ''Low''" | "complexity = ''Medium''" | "complexity = ''High''"
    by blast
  then show ?thesis
  proof cases
    case 1
    show ?thesis unfolding 1 complexityFactor_def by (rule exI[of _ "8 / 10"]) simp
  next
    case 2
    show ?thesis unfolding 2 complexityFactor_def by (rule exI[of _ 1]) simp
  next
    case 3
    show ?thesis unfolding 3 complexityFactor_def by (rule exI[of _ "13 / 10"]) simp
  qed
qed

lemma calculate_error:
  assumes "calculate_costs_and_roi u m c p = Inl e"
  shows "e = KeyError \<or> e = OverflowError"
proof (cases "c \<in> {''Low'', ''Medium'', ''High''}")
  case True
  then obtain f where f: "dict_get complexity_factor c = Inr f" using tier_known by blast
  show ?thesis by (rule calculate_cases[OF f, of u m p]) (use assms in simp_all)
next
  case False
  then have "calculate_costs_and_roi u m c p = Inl KeyError" using key_error_iff by blast
  then show ?thesis using assms by simp
qed

lemma calculate_Inr_iff:
  "calculate_costs_and_roi u m c p = Inr r
   \<longleftrightarrow> (\<exists>f xa xb q.
         complexityFactor c = Some f
         \<and> float_of_int (u * 100 * m + 50000) = Inr xa
         \<and> float_of_int (u * 40 * m + 30000) = Inr xb
         \<and> int_truediv p 100 = Inr q
         \<and> r = (float_mul xa (fl f), float_mul xb (fl f),
                float_sub (float_mul (float_mul xa (fl f)) (float_add (Finite 1) q))
                  (float_mul xa (fl f)),
                float_sub (float_mul (float_mul xb (fl f)) (float_add (Finite 1) q))
                  (float_mul xb (fl f))))"
  (is "?L \<longleftrightarrow> ?R")
proof
  assume ?R
  then obtain f xa xb q where f: "complexityFactor c = Some f"
    and xa: "float_of_int (u * 100 * m + 50000) = Inr xa"
    and xb: "float_of_int (u * 40 * m + 30000) = Inr xb"
    and q: "int_truediv p 100 = Inr q"
    and r: "r = (float_mul xa (fl f), float_mul xb (fl f),
                float_sub (float_mul (float_mul xa (fl f)) (float_add (Finite 1) q))
                  (float_mul xa (fl f)),
                float_sub (float_mul (float_mul xb (fl f)) (float_add (Finite 1) q))
                  (float_mul xb (fl f)))"
    by blast
  show ?L unfolding r by (rule calculate_returns[OF spec_factor[OF f] xa xb q])
next
  assume L: ?L
  have "c \<in> {''Low'', ''Medium'', ''High''}"
  proof (rule ccontr)
    assume "c \<notin> {''Low'', ''Medium'', ''High''}"
    then have "calculate_costs_and_roi u m c p = Inl KeyError" using key_error_iff by blast
    then show False using L by simp
  qed
  then obtain f where f: "complexityFactor c = Some f" using tier_spec_factor by blast
  note d = spec_factor[OF f]
  have no: "calculate_costs_and_roi u m c p \<noteq> Inl OverflowError" using L by simp
  obtain xa where xa: "float_of_int (u * 100 * m + 50000) = Inr xa"
  proof (cases "float_of_int (u * 100 * m + 50000)")
    case (Inl e)
    then have "float_of_int (u * 100 * m + 50000) = Inl OverflowError"
      using float_of_int_error by blast
    then show ?thesis using no calculate_overflow_iff[OF d, of u m p] by blast
  qed
  obtain xb where xb: "float_of_int (u * 40 * m + 30000) = Inr xb"
  proof (cases "float_of_int (u * 40 * m + 30000)")
    case (Inl e)
    then have "float_of_int (u * 40 * m + 30000) = Inl OverflowError"
      using float_of_int_error by blast
    then show ?thesis using no calculate_overflow_iff[OF d, of u m p] by blast
  qed
  obtain q where q: "int_truediv p 100 = Inr q"
  proof (cases "int_truediv p 100")
    case (Inl e)
    then have "int_truediv p 100 = Inl OverflowError"
      using int_truediv_100_error by blast
    then show ?thesis using no calculate_overflow_iff[OF d, of u m p] by blast
  qed
  from calculate_returns[OF d xa xb q] L f xa xb q show ?R by simp
qed

text \<open>
  Claim C3, amended: the estimator validates nothing and has no \<open>InvalidInput\<close> error.
  It raises \<open>KeyError\<close> exactly when the complexity tier is not one of Low, Medium and
  High. It raises \<open>OverflowError\<close> exactly when the tier is one of the three and one of
  the two integer cost bases is too large to convert to a float or the quotient
  \<open>targetRoiPercent / 100\<close> is too large for a float. It raises nothing else. It returns
  exactly when the tier is one of the three and the three conversions succeed, and then
  its result is the four figures of the formulas, computed in floats, whatever the signs
  of userCount, durationMonths and targetRoiPercent. Each conversion succeeds when the
  integer is at most \<open>2^1023\<close> in magnitude.
\<close>

theorem estimator_validates_nothing:
  "(calculate_costs_and_roi users months complexity roi_percentage = Inl KeyError
      \<longleftrightarrow> complexity \<notin> {''Low'', ''Medium'', ''High''})
   \<and> (calculate_costs_and_roi users months complexity roi_percentage = Inl OverflowError
      \<longleftrightarrow> complexity \<in> {''Low'', ''Medium'', ''High''}
          \<and> (float_of_int (users * 100 * months + 50000) = Inl OverflowError
             \<or> float_of_int (users * 40 * months + 30000) = Inl OverflowError
             \<or> int_truediv roi_percentage 100 = Inl OverflowError))
   \<and> (\<forall>e. calculate_costs_and_roi users months complexity roi_percentage = Inl e
         \<longrightarrow> e = KeyError \<or> e = OverflowError)
   \<and> (\<forall>r. calculate_costs_and_roi users months complexity roi_percentage = Inr r
         \<longleftrightarrow> (\<exists>f xa xb q.
               complexityFactor complexity = Some f
               \<and> float_of_int (users * 100 * months + 50000) = Inr xa
               \<and> float_of_int (users * 40 * months + 30000) = Inr xb
               \<and> int_truediv roi_percentage 100 = Inr q
               \<and> r = (float_mul xa (fl f), float_mul xb (fl f),
                      float_sub (float_mul (float_mul xa (fl f)) (float_add (Finite 1) q))
                        (float_mul xa (fl f)),
                      float_sub (float_mul (float_mul xb (fl f)) (float_add (Finite 1) q))
                        (float_mul xb (fl f)))))
   \<and> (\<bar>users * 100 * months + 50000\<bar> \<le> 2 ^ 1023
       \<longrightarrow> float_of_int (users * 100 * months + 50000)
           = Inr (Finite (binary64 (of_int (users * 100 * months + 50000)))))
   \<and> (\<bar>users * 40 * months + 30000\<bar> \<le> 2 ^ 1023
       \<longrightarrow> float_of_int (users * 40 * months + 30000)
           = Inr (Finite (binary64 (of_int (users * 40 * months + 30000)))))
   \<and> (\<bar>roi_percentage\<bar> \<le> 2 ^ 1023
       \<longrightarrow> int_truediv roi_percentage 100
           = Inr (Finite (binary64 (of_int roi_percentage / 100))))"
proof (intro conjI allI impI)
  show "calculate_costs_and_roi users months complexity roi_percentage = Inl KeyError
      \<longleftrightarrow> complexity \<notin> {''Low'', ''Medium'', ''High''}"
    by (rule key_error_iff)
next
  show "calculate_costs_and_roi users months complexity roi_percentage = Inl OverflowError
      \<longleftrightarrow> complexity \<in> {''Low'', ''Medium'', ''High''}
          \<and> (float_of_int (users * 100 * months + 50000) = Inl OverflowError
             \<or> float_of_int (users * 40 * months + 30000) = Inl OverflowError
             \<or> int_truediv roi_percentage 100 = Inl OverflowError)"
  proof (cases "complexity \<in> {''Low'', ''Medium'', ''High''}")
    case True
    then obtain f where "dict_get complexity_factor complexity = Inr f" using tier_known by blast
    then show ?thesis using calculate_overflow_iff True by blast
  next
    case False
    then have "calculate_costs_and_roi users months complexity roi_percentage = Inl KeyError"
      using key_error_iff by blast
    then show ?thesis using False by simp
  qed
next
  fix e
  assume "calculate_costs_and_roi users months complexity roi_percentage = Inl e"
  then show "e = KeyError \<or> e = OverflowError" by (rule calculate_error)
next
  fix r
  show "calculate_costs_and_roi users months complexity roi_percentage = Inr r
         \<longleftrightarrow> (\<exists>f xa xb q.
               complexityFactor complexity = Some f
               \<and> float_of_int (users * 100 * months + 50000) = Inr xa
               \<and> float_of_int (users * 40 * months + 30000) = Inr xb
               \<and> int_truediv roi_percentage 100 = Inr q
               \<and> r = (float_mul xa (fl f), float_mul xb (fl f),
                      float_sub (float_mul (float_mul xa (fl f)) (float_add (Finite 1) q))
                        (float_mul xa (fl f)),
                      float_sub (float_mul (float_mul xb (fl f)) (float_add (Finite 1) q))
                        (float_mul xb (fl f))))"
    by (rule calculate_Inr_iff)
next
  assume "\<bar>users * 100 * months + 50000\<bar> \<le> 2 ^ 1023"
  then show "float_of_int (users * 100 * months + 50000)
      = Inr (Finite (binary64 (of_int (users * 100 * months + 50000))))"
    by (rule float_of_int_fits)
next
  assume "\<bar>users * 40 * months + 30000\<bar> \<le> 2 ^ 1023"
  then show "float_of_int (users * 40 * months + 30000)
      = Inr (Finite (binary64 (of_int (users * 40 * months + 30000))))"
    by (rule float_of_int_fits)
next
  assume "\<bar>roi_percentage\<bar> \<le> 2 ^ 1023"
  then show "int_truediv roi_percentage 100
      = Inr (Finite (binary64 (of_int roi_percentage / 100)))"
    by (rule int_truediv_bounded)
qed

text \<open>
  Instances of the amended claim C3: the tier \<open>Extreme\<close> raises \<open>KeyError\<close>; userCount
  and durationMonths both \<open>10^200\<close> raise \<open>OverflowError\<close>; a negative userCount, a zero
  durationMonths and a negative targetRoiPercent return the figures of the formulas,
  40000.0, 24000.0, -20000.0 and -12000.0; and targetRoiPercent \<open>10^309\<close>, itself too large
  for a float, returns the costs 110000.0 and 54000.0 with both ROI figures infinite.
\<close>

theorem estimator_validates_nothing_witness:
  "calculate_costs_and_roi 0 12 ''Extreme'' 100 = Inl KeyError
   \<and> calculate_costs_and_roi (10 ^ 200) (10 ^ 200) ''Low'' 0 = Inl OverflowError
   \<and> \<bar>(- 5) * 100 * 0 + 50000 :: int\<bar> \<le> 2 ^ 1023
   \<and> \<bar>(- 5) * 40 * 0 + 30000 :: int\<bar> \<le> 2 ^ 1023
   \<and> \<bar>- 50 :: int\<bar> \<le> 2 ^ 1023
   \<and> calculate_costs_and_roi (- 5) 0 ''Low'' (- 50)
       = Inr (float_mul (Finite (binary64 (of_int ((- 5) * 100 * 0 + 50000)))) (fl (8 / 10)),
              float_mul (Finite (binary64 (of_int ((- 5) * 40 * 0 + 30000)))) (fl (8 / 10)),
              float_sub (float_mul
                  (float_mul (Finite (binary64 (of_int ((- 5) * 100 * 0 + 50000)))) (fl (8 / 10)))
                  (float_add (Finite 1) (Finite (binary64 (of_int (- 50) / 100)))))
                (float_mul (Finite (binary64 (of_int ((- 5) * 100 * 0 + 50000)))) (fl (8 / 10))),
              float_sub (float_mul
                  (float_mul (Finite (binary64 (of_int ((- 5) * 40 * 0 + 30000)))) (fl (8 / 10)))
                  (float_add (Finite 1) (Finite (binary64 (of_int (- 50) / 100)))))
                (float_mul (Finite (binary64 (of_int ((- 5) * 40 * 0 + 30000)))) (fl (8 / 10))))
   \<and> calculate_costs_and_roi (- 5) 0 ''Low'' (- 50)
       = Inr (Finite 40000, Finite 24000, Finite (- 20000), Finite (- 12000))
   \<and> calculate_costs_and_roi 50 12 ''Medium'' (10 ^ 309)
       = Inr (Finite 110000, Finite 54000, PInf, PInf)"
proof -
  have "''Extreme'' \<notin> {''Low'', ''Medium'', ''High''}" by simp
  then have 1: "calculate_costs_and_roi 0 12 ''Extreme'' 100 = Inl KeyError"
    using estimator_validates_nothing[of 0 12 "''Extreme''" 100] by blast
  have "float_of_int (10 ^ 200 * 100 * 10 ^ 200 + 50000) = Inl OverflowError"
    by (rule float_of_int_overflow) simp
  moreover have "''Low'' \<in> {''Low'', ''Medium'', ''High''}" by simp
  ultimately have 2: "calculate_costs_and_roi (10 ^ 200) (10 ^ 200) ''Low'' 0 = Inl OverflowError"
    using estimator_validates_nothing[of "10 ^ 200" "10 ^ 200" "''Low''" 0] by blast
  have f: "complexityFactor ''Low'' = Some (8 / 10)" unfolding complexityFactor_def by simp
  have b: "\<bar>(- 5) * 100 * 0 + 50000 :: int\<bar> \<le> 2 ^ 1023"
    "\<bar>(- 5) * 40 * 0 + 30000 :: int\<bar> \<le> 2 ^ 1023" "\<bar>- 50 :: int\<bar> \<le> 2 ^ 1023"
    by simp_all
  note t = estimator_validates_nothing[of "- 5" 0 "''Low''" "- 50"]
  from t b(1) have xa: "float_of_int ((- 5) * 100 * 0 + 50000)
      = Inr (Finite (binary64 (of_int ((- 5) * 100 * 0 + 50000))))" by blast
  from t b(2) have xb: "float_of_int ((- 5) * 40 * 0 + 30000)
      = Inr (Finite (binary64 (of_int ((- 5) * 40 * 0 + 30000))))" by blast
  from t b(3) have q: "int_truediv (- 50) 100 = Inr (Finite (binary64 (of_int (- 50) / 100)))"
    by blast
  from t have "\<And>r. calculate_costs_and_roi (- 5) 0 ''Low'' (- 50) = Inr r
         \<longleftrightarrow> (\<exists>f xa xb q.
               complexityFactor ''Low'' = Some f
               \<and> float_of_int ((- 5) * 100 * 0 + 50000) = Inr xa
               \<and> float_of_int ((- 5) * 40 * 0 + 30000) = Inr xb
               \<and> int_truediv (- 50) 100 = Inr q
               \<and> r = (float_mul xa (fl f), float_mul xb (fl f),
                      float_sub (float_mul (float_mul xa (fl f)) (float_add (Finite 1) q))
                        (float_mul xa (fl f)),
                      float_sub (float_mul (float_mul xb (fl f)) (float_add (Finite 1) q))
                        (float_mul xb (fl f))))"
    by blast
  with f xa xb q have 3: "calculate_costs_and_roi (- 5) 0 ''Low'' (- 50)
       = Inr (float_mul (Finite (binary64 (of_int ((- 5) * 100 * 0 + 50000)))) (fl (8 / 10)),
              float_mul (Finite (binary64 (of_int ((- 5) * 40 * 0 + 30000)))) (fl (8 / 10)),
              float_sub (float_mul
                  (float_mul (Finite (binary64 (of_int ((- 5) * 100 * 0 + 50000)))) (fl (8 / 10)))
                  (float_add (Finite 1) (Finite (binary64 (of_int (- 50) / 100)))))
                (float_mul (Finite (binary64 (of_int ((- 5) * 100 * 0 + 50000)))) (fl (8 / 10))),
              float_sub (float_mul
                  (float_mul (Finite (binary64 (of_int ((- 5) * 40 * 0 + 30000)))) (fl (8 / 10)))
                  (float_add (Finite 1) (Finite (binary64 (of_int (- 50) / 100)))))
                (float_mul (Finite (binary64 (of_int ((- 5) * 40 * 0 + 30000)))) (fl (8 / 10))))"
    by blast
  from 1 2 b 3 negative_input huge_percentage show ?thesis by (simp only: simp_thms)
qed

section \<open>The estimator is a pure function\<close>

subsection \<open>A function of local names neither reads nor writes the globals\<close>

lemma eval_globals:
  "set (names e) \<subseteq> set ns \<Longrightarrow> eval ns g l e = eval ns g' l e"
  "set (names_exprs es) \<subseteq> set ns \<Longrightarrow> eval_exprs ns g l es = eval_exprs ns g' l es"
  "set (names_items kvs) \<subseteq> set ns \<Longrightarrow> eval_items ns g l kvs = eval_items ns g' l kvs"
  by (induction e and es and kvs) (simp_all add: load_name_def)

lemma exec_globals:
  assumes "list_all (\<lambda>s. list_all (\<lambda>x. x \<in> set ns) (loads s @ assigned s)) body"
  shows "exec ns g l body = (g, snd (exec ns g' l body))"
  using assms
proof (induction body arbitrary: l)
  case Nil
  show ?case by simp
next
  case (Cons s body)
  show ?case
  proof (cases s)
    case (Global xs)
    then show ?thesis using Cons by simp
  next
    case (Assign x e)
    then have n: "set (names e) \<subseteq> set ns" and x: "x \<in> set ns"
      using Cons.prems by (auto simp add: list_all_iff)
    have e: "eval ns g l e = eval ns g' l e" using n by (rule eval_globals)
    show ?thesis
    proof (cases "eval ns g' l e")
      case (Inl err)
      then show ?thesis using Assign e by simp
    next
      case (Inr v)
      then show ?thesis using Assign e x Cons by simp
    qed
  next
    case (Return e)
    then have n: "set (names e) \<subseteq> set ns"
      using Cons.prems by (auto simp add: list_all_iff)
    have e: "eval ns g l e = eval ns g' l e" using n by (rule eval_globals)
    show ?thesis using Return e by simp
  qed
qed

lemma call_globals:
  assumes "uses_locals_only f"
  shows "call f g args = (g, snd (call f g' args))"
proof (cases f)
  case (FunctionDef name params body)
  show ?thesis
  proof (cases "length args = length params")
    case True
    then show ?thesis
      using assms exec_globals[of "local_names params body" body g "map_of (zip params args)" g']
      by (simp add: call_def FunctionDef uses_locals_only_def)
  next
    case False
    then show ?thesis by (simp add: call_def FunctionDef)
  qed
qed

lemma estimator_uses_locals_only: "uses_locals_only calculate_costs_and_roi_ast"
  by (simp add: uses_locals_only_def calculate_costs_and_roi_ast_def local_names_def)

subsection \<open>The function of lines 387 to 397 computes the estimator\<close>

lemma factor_subscript:
  "subscript (VDict [(VStr ''Low'', VFloat x), (VStr ''Medium'', VFloat y),
       (VStr ''High'', VFloat z)]) (VStr c)
     = and_then (dict_get [(''Low'', x), (''Medium'', y), (''High'', z)] c) (\<lambda>f. Inr (VFloat f))"
  by (simp add: dict_get_def)

lemma estimator_refines:
  "call calculate_costs_and_roi_ast g [VInt u, VInt m, VStr c, VInt p]
     = (g, and_then (calculate_costs_and_roi u m c p) (\<lambda>r. Inr (result_tuple r)))"
proof (cases "dict_get complexity_factor c")
  case (Inl e)
  then show ?thesis
    by (simp add: call_def calculate_costs_and_roi_ast_def local_names_def load_name_def
        factor_subscript complexity_factor_def calculate_costs_and_roi_def del: subscript.simps)
next
  case f: (Inr f)
  show ?thesis
  proof (cases "float_of_int (u * 100 * m + 50000)")
    case (Inl e)
    then show ?thesis using f
      by (simp add: call_def calculate_costs_and_roi_ast_def local_names_def load_name_def
          factor_subscript complexity_factor_def calculate_costs_and_roi_def binop_values_def int_mul_float_def
          del: subscript.simps)
  next
    case a: (Inr xa)
    show ?thesis
    proof (cases "float_of_int (u * 40 * m + 30000)")
      case (Inl e)
      then show ?thesis using f a
        by (simp add: call_def calculate_costs_and_roi_ast_def local_names_def load_name_def
            factor_subscript complexity_factor_def calculate_costs_and_roi_def binop_values_def int_mul_float_def
            del: subscript.simps)
    next
      case b: (Inr xb)
      show ?thesis
      proof (cases "int_truediv p 100")
        case (Inl e)
        then show ?thesis using f a b
          by (simp add: call_def calculate_costs_and_roi_ast_def local_names_def load_name_def
              factor_subscript complexity_factor_def calculate_costs_and_roi_def binop_values_def int_mul_float_def
              del: subscript.simps)
      next
        case q: (Inr q)
        show ?thesis
        proof (cases "float_of_int 1")
          case (Inl e)
          then show ?thesis using f a b q
            by (simp add: call_def calculate_costs_and_roi_ast_def local_names_def load_name_def
                factor_subscript complexity_factor_def calculate_costs_and_roi_def binop_values_def int_mul_float_def
                int_add_float_def del: subscript.simps)
        next
          case (Inr one)
          then show ?thesis using f a b q
            by (simp add: call_def calculate_costs_and_roi_ast_def local_names_def load_name_def
                factor_subscript complexity_factor_def calculate_costs_and_roi_def binop_values_def int_mul_float_def
                int_add_float_def result_tuple_def del: subscript.simps)
        qed
      qed
    qed
  qed
qed

text \<open>
  Claim C7: the estimator is a deterministic pure function with no side effects and no
  hidden state. Called with the values of the form (integers userCount, durationMonths
  and targetRoiPercent and a string complexityTier) in any globals, the function of lines
  387 to 397 yields the value of \<open>calculate_costs_and_roi\<close> at these four arguments, as a
  tuple of four floats, or raises its exception. For every list of arguments the call
  leaves the globals as it found them, and its outcome is the same in any other globals:
  two calls with identical input yield identical output, whatever ran between them.
\<close>

theorem estimator_deterministic:
  "call calculate_costs_and_roi_ast g [VInt users, VInt months, VStr complexity, VInt roi_percentage]
     = (g, and_then (calculate_costs_and_roi users months complexity roi_percentage)
             (\<lambda>r. Inr (result_tuple r)))
   \<and> fst (call calculate_costs_and_roi_ast g args) = g
   \<and> snd (call calculate_costs_and_roi_ast g args) = snd (call calculate_costs_and_roi_ast g' args)"
proof (intro conjI)
  show "call calculate_costs_and_roi_ast g [VInt users, VInt months, VStr complexity, VInt roi_percentage]
     = (g, and_then (calculate_costs_and_roi users months complexity roi_percentage)
             (\<lambda>r. Inr (result_tuple r)))"
    by (rule estimator_refines)
  have 1: "call calculate_costs_and_roi_ast g args = (g, snd (call calculate_costs_and_roi_ast g' args))"
    using estimator_uses_locals_only by (rule call_globals)
  show "fst (call calculate_costs_and_roi_ast g args) = g" by (simp add: 1)
  show "snd (call calculate_costs_and_roi_ast g args) = snd (call calculate_costs_and_roi_ast g' args)"
    by (simp add: 1)
qed

end
